theory Spec2Isabelle
  imports Complex_Main "HOL-Library.Char_ord" "HOL-Library.List_Lexorder"
begin

section \<open>Conventions of the embedding\<close>

text \<open>
  The development embeds the curve engine of ALMReady: day-count arithmetic
  (\<^verbatim>\<open>engine/core/daycount.py\<close>), the forward curve with its log-linear discount factor
  (\<^verbatim>\<open>engine/core/curves.py\<close>) and the parallel-shock engine
  (\<^verbatim>\<open>engine/scenarios/apply.py\<close>, \<^verbatim>\<open>engine/services/market.py\<close>).

  Python \<^verbatim>\<open>float\<close> values are read as real numbers: every statement below is about the
  formulas the code evaluates, not about IEEE rounding. Python \<^verbatim>\<open>int\<close> is \<open>int\<close>.
  Every \<^verbatim>\<open>raise\<close> of the source is a value of the type \<open>error\<close>; the source raises
  \<^verbatim>\<open>ValueError\<close> and \<^verbatim>\<open>KeyError\<close> throughout and tells the cases apart by message, so one
  constructor stands for each message; the names and lists a message quotes are not kept.
\<close>

datatype error =
    InvalidDateOrder            \<comment> \<open>\<^verbatim>\<open>ValueError("d1 must be >= d0")\<close>\<close>
  | UnsupportedConvention       \<comment> \<open>\<^verbatim>\<open>ValueError("Unsupported daycount base: ...")\<close>\<close>
  | DateOutOfRange              \<comment> \<open>\<^verbatim>\<open>ValueError\<close> of the constructor \<^verbatim>\<open>datetime.date\<close>\<close>
  | InvalidCurve                \<comment> \<open>no points, or YearFrac not strictly increasing\<close>
  | IndexError                  \<comment> \<open>list index out of range\<close>
  | InvalidCurveTable           \<comment> \<open>required columns missing from the table\<close>
  | NoPointsForIndex            \<comment> \<open>\<^verbatim>\<open>ValueError("No points found for IndexName=...")\<close>\<close>
  | NullYearFrac                \<comment> \<open>\<^verbatim>\<open>ValueError("Curve ... has null YearFrac.")\<close>\<close>
  | NullFwdRate                 \<comment> \<open>\<^verbatim>\<open>ValueError("Curve ... has null FwdRate.")\<close>\<close>
  | EmptyShockTarget            \<comment> \<open>\<^verbatim>\<open>ValueError("apply_to was specified but contains no valid indices.")\<close>\<close>
  | UnknownIndex                \<comment> \<open>\<^verbatim>\<open>ValueError("Indices not found in base_set: ...")\<close>\<close>
  | DuplicateScenario           \<comment> \<open>\<^verbatim>\<open>ValueError("Duplicate scenario name: ...")\<close>\<close>
  | AttributeError              \<comment> \<open>a reference that does not hold the expected kind of object\<close>

text \<open>Sequencing of fallible steps: the first error raised is the result.\<close>

definition bind_err :: "error + 'a \<Rightarrow> ('a \<Rightarrow> error + 'b) \<Rightarrow> error + 'b" where
  "bind_err r f = (case r of Inl e \<Rightarrow> Inl e | Inr v \<Rightarrow> f v)"

section \<open>Calendar dates\<close>

text \<open>
  \<^verbatim>\<open>datetime.date\<close> of the Python standard library: a triple of year, month and day in
  the proleptic Gregorian calendar, with \<open>1 \<le> year \<le> 9999\<close>. Subtraction of two dates
  gives the difference of their ordinals; comparison is that of the triples.
\<close>

record date =
  year :: int
  month :: int
  day :: int

definition is_leap_year :: "int \<Rightarrow> bool" where
  "is_leap_year y \<longleftrightarrow> (y mod 4 = 0 \<and> y mod 100 \<noteq> 0) \<or> y mod 400 = 0"

definition last_day_of_month :: "int \<Rightarrow> int \<Rightarrow> int" where
  "last_day_of_month y m =
     (if m = 2 then (if is_leap_year y then 29 else 28)
      else if m \<in> {1, 3, 5, 7, 8, 10, 12} then 31
      else 30)"

definition valid_date :: "date \<Rightarrow> bool" where
  "valid_date d \<longleftrightarrow>
     1 \<le> year d \<and> year d \<le> 9999 \<and> 1 \<le> month d \<and> month d \<le> 12 \<and>
     1 \<le> day d \<and> day d \<le> last_day_of_month (year d) (month d)"

definition date_new :: "int \<Rightarrow> int \<Rightarrow> int \<Rightarrow> error + date" where
  "date_new y m d =
     (let r = \<lparr>year = y, month = m, day = d\<rparr>
      in if valid_date r then Inr r else Inl DateOutOfRange)"

definition days_before_year :: "int \<Rightarrow> int" where
  "days_before_year y =
     (let z = y - 1 in z * 365 + z div 4 - z div 100 + z div 400)"

definition days_before_month :: "int \<Rightarrow> int \<Rightarrow> int" where
  "days_before_month y m =
     (if m = 1 then 0 else if m = 2 then 31 else if m = 3 then 59
      else if m = 4 then 90 else if m = 5 then 120 else if m = 6 then 151
      else if m = 7 then 181 else if m = 8 then 212 else if m = 9 then 243
      else if m = 10 then 273 else if m = 11 then 304 else 334)
     + (if m > 2 \<and> is_leap_year y then 1 else 0)"

definition toordinal :: "date \<Rightarrow> int" where
  "toordinal d = days_before_year (year d) + days_before_month (year d) (month d) + day d"

definition days_between :: "date \<Rightarrow> date \<Rightarrow> int" where
  \<comment> \<open>\<^verbatim>\<open>(d1 - d0).days\<close>\<close>
  "days_between d0 d1 = toordinal d1 - toordinal d0"

definition date_less :: "date \<Rightarrow> date \<Rightarrow> bool" where
  \<comment> \<open>\<^verbatim>\<open>a < b\<close> on dates\<close>
  "date_less a b \<longleftrightarrow>
     year a < year b \<or>
     (year a = year b \<and> (month a < month b \<or> (month a = month b \<and> day a < day b)))"

section \<open>Day-count conventions and year fractions\<close>

definition BASE_ACT_360 :: string where "BASE_ACT_360 = ''ACT/360''"
definition BASE_ACT_365 :: string where "BASE_ACT_365 = ''ACT/365''"
definition BASE_ACT_ACT :: string where "BASE_ACT_ACT = ''ACT/ACT''"
definition BASE_30_360 :: string where "BASE_30_360 = ''30/360''"

definition is_last_day_of_month :: "date \<Rightarrow> bool" where
  "is_last_day_of_month d \<longleftrightarrow> day d = last_day_of_month (year d) (month d)"

definition is_last_day_of_february :: "date \<Rightarrow> bool" where
  "is_last_day_of_february d \<longleftrightarrow> month d = 2 \<and> is_last_day_of_month d"

definition diy :: "int \<Rightarrow> int" where
  \<comment> \<open>the local function \<^verbatim>\<open>diy\<close> of \<^verbatim>\<open>yearfrac_act_act_isda\<close>\<close>
  "diy y = (if is_leap_year y then 366 else 365)"

definition yearfrac_act_act_isda :: "date \<Rightarrow> date \<Rightarrow> error + real" where
  "yearfrac_act_act_isda d0 d1 =
     (if date_less d1 d0 then Inl InvalidDateOrder
      else if d0 = d1 then Inr 0
      else if year d0 = year d1
        then Inr (real_of_int (days_between d0 d1) / real_of_int (diy (year d0)))
      else
        bind_err (date_new (year d0 + 1) 1 1) (\<lambda>end_y0.
        let yf = real_of_int (days_between d0 end_y0) / real_of_int (diy (year d0));
            yf = yf + real_of_int (max 0 (year d1 - year d0 - 1))
        in bind_err (date_new (year d1) 1 1) (\<lambda>start_y1.
           Inr (yf + real_of_int (days_between start_y1 d1) / real_of_int (diy (year d1))))))"

definition yearfrac_30_360_us :: "date \<Rightarrow> date \<Rightarrow> error + real" where
  "yearfrac_30_360_us d0 d1 =
     (if date_less d1 d0 then Inl InvalidDateOrder
      else
        let d0_day = day d0; d1_day = day d1;
            d0_day = (if is_last_day_of_february d0 then 30 else d0_day);
            d1_day = (if is_last_day_of_february d1 \<and> d0_day \<in> {30, 31} then 30 else d1_day);
            d0_day = (if d0_day = 31 then 30 else d0_day);
            d1_day = (if d1_day = 31 \<and> d0_day \<in> {30, 31} then 30 else d1_day);
            days_360 = 360 * (year d1 - year d0) + 30 * (month d1 - month d0)
                       + (d1_day - d0_day)
        in Inr (real_of_int days_360 / 360))"

definition yearfrac :: "date \<Rightarrow> date \<Rightarrow> string \<Rightarrow> error + real" where
  "yearfrac d0 d1 b =
     (if date_less d1 d0 then Inl InvalidDateOrder
      else
        let days = days_between d0 d1
        in if b = BASE_ACT_360 then Inr (real_of_int days / 360)
           else if b = BASE_ACT_365 then Inr (real_of_int days / 365)
           else if b = BASE_ACT_ACT then yearfrac_act_act_isda d0 d1
           else if b = BASE_30_360 then yearfrac_30_360_us d0 d1
           else Inl UnsupportedConvention)"

text \<open>
  The reading of ACT/ACT-ISDA that the specification gives in words: the interval is cut
  at the calendar-year boundaries, the days of the interval that fall in a calendar
  year are divided by the length of that year, and the quotients are added up. It is
  stated on ordinals, independently of \<open>yearfrac_act_act_isda\<close>, and compared with it below.
\<close>

definition year_start :: "int \<Rightarrow> int" where
  \<comment> \<open>the ordinal of 1 January of the year\<close>
  "year_start y = days_before_year y + 1"

definition fragment_days :: "date \<Rightarrow> date \<Rightarrow> int \<Rightarrow> int" where
  \<comment> \<open>the number of days of the interval from d0 to d1 that lie in the calendar year y\<close>
  "fragment_days d0 d1 y =
     max 0 (min (toordinal d1) (year_start (y + 1)) - max (toordinal d0) (year_start y))"

definition act_act_isda_fragments :: "date \<Rightarrow> date \<Rightarrow> real" where
  "act_act_isda_fragments d0 d1 =
     sum_list (map (\<lambda>y. real_of_int (fragment_days d0 d1 y) / real_of_int (diy y))
                   [year d0..year d1])"

section \<open>Forward curves\<close>

record CurvePoint =
  year_frac :: real
  rate :: real
  tenor :: string
  tenor_date :: date

text \<open>
  The fields of \<^verbatim>\<open>ForwardCurveSet\<close> (\<^verbatim>\<open>engine/services/market.py\<close>). Its table and its
  curves are objects of their own, shared by reference, so the record holds references
  into a heap of objects (see the section on scenarios). The record is declared before
  \<open>ForwardCurve\<close>, whose field \<open>points\<close> has the same name; the field of the set is
  written \<open>ForwardCurveSet.points\<close>.
\<close>

type_synonym ref = nat

record ForwardCurveSet =
  analysis_date :: date
  base :: string
  points :: ref
  curves :: "string \<rightharpoonup> ref"

record ForwardCurve =
  index_name :: string
  points :: "CurvePoint list"

text \<open>The validation loop of \<^verbatim>\<open>__post_init__\<close>, with its variable \<^verbatim>\<open>prev\<close>.\<close>

fun validate_increasing :: "real option \<Rightarrow> CurvePoint list \<Rightarrow> bool" where
  "validate_increasing prev [] = True"
| "validate_increasing prev (p # ps) =
     (if prev \<noteq> None \<and> year_frac p \<le> the prev then False
      else validate_increasing (Some (year_frac p)) ps)"

text \<open>
  Construction of a \<^verbatim>\<open>ForwardCurve\<close>: \<^verbatim>\<open>__post_init__\<close> rejects an empty list, sorts the
  points by year fraction (\<^verbatim>\<open>list.sort\<close> is stable, as \<open>sort_key\<close> is) and validates.
\<close>

definition ForwardCurve_new :: "string \<Rightarrow> CurvePoint list \<Rightarrow> error + ForwardCurve" where
  "ForwardCurve_new nm pts =
     (if pts = [] then Inl InvalidCurve
      else
        let s = sort_key year_frac pts
        in if validate_increasing None s then Inr \<lparr>index_name = nm, points = s\<rparr>
           else Inl InvalidCurve)"

definition year_fracs :: "ForwardCurve \<Rightarrow> real list" where
  "year_fracs c = map year_frac (points c)"

definition rates :: "ForwardCurve \<Rightarrow> real list" where
  "rates c = map rate (points c)"

definition pillar_ln_dfs :: "ForwardCurve \<Rightarrow> real list" where
  "pillar_ln_dfs c = map (\<lambda>p. - rate p * year_frac p) (points c)"

definition interp_linear :: "real \<Rightarrow> real \<Rightarrow> real \<Rightarrow> real \<Rightarrow> real \<Rightarrow> real" where
  "interp_linear x x0 x1 y0 y1 =
     (if x1 = x0 then y1
      else let w = (x - x0) / (x1 - x0) in y0 + w * (y1 - y0))"

text \<open>
  Subscription of a Python list by an integer: an index below zero is taken from the end
  of the list, and a position outside the list raises \<^verbatim>\<open>IndexError\<close>.
\<close>

definition py_index :: "'a list \<Rightarrow> int \<Rightarrow> error + 'a" where
  "py_index xs i =
     (if 0 \<le> i then
        (if nat i < length xs then Inr (xs ! nat i) else Inl IndexError)
      else
        (if nat (- i) \<le> length xs then Inr (xs ! (length xs - nat (- i)))
         else Inl IndexError))"

text \<open>\<^verbatim>\<open>bisect.bisect_left\<close> of the standard library, with its loop on \<^verbatim>\<open>lo\<close> and \<^verbatim>\<open>hi\<close>.\<close>

function bisect_left_loop :: "real list \<Rightarrow> real \<Rightarrow> nat \<Rightarrow> nat \<Rightarrow> nat" where
  "bisect_left_loop a x lo hi =
     (if lo < hi then
        (let mid = (lo + hi) div 2
         in if a ! mid < x then bisect_left_loop a x (mid + 1) hi
            else bisect_left_loop a x lo mid)
      else lo)"
  by pat_completeness auto
termination
  by (relation "measure (\<lambda>(a, x, lo, hi). hi - lo)") auto

definition bisect_left :: "real list \<Rightarrow> real \<Rightarrow> nat" where
  "bisect_left a x = bisect_left_loop a x 0 (length a)"

text \<open>
  \<^verbatim>\<open>ForwardCurve.discount_factor\<close>. The argument is a float, so the test
  \<^verbatim>\<open>t is None\<close> has no counterpart; \<^verbatim>\<open>math.exp\<close> is the real exponential.
\<close>

definition discount_factor :: "ForwardCurve \<Rightarrow> real \<Rightarrow> error + real" where
  "discount_factor c t =
     (if t \<le> 0 then Inr 1
      else
        let xs = year_fracs c; ln_dfs = pillar_ln_dfs c
        in if length xs = 1 then
             bind_err (py_index xs 0) (\<lambda>x1.
             bind_err (py_index ln_dfs 0) (\<lambda>y1.
             let ln_df_t = (if t \<le> x1 then interp_linear t 0 x1 0 y1
                            else interp_linear t 0 x1 0 y1)
             in Inr (exp ln_df_t)))
           else
             bind_err (py_index xs 0) (\<lambda>x0.
             if t \<le> x0 then
               bind_err (py_index ln_dfs 0) (\<lambda>y0.
               Inr (exp (interp_linear t 0 x0 0 y0)))
             else
               bind_err (py_index xs (- 1)) (\<lambda>xl.
               if t \<ge> xl then
                 bind_err (py_index xs (- 2)) (\<lambda>xp.
                 bind_err (py_index ln_dfs (- 2)) (\<lambda>yp.
                 bind_err (py_index ln_dfs (- 1)) (\<lambda>yl.
                 Inr (exp (interp_linear t xp xl yp yl)))))
               else
                 let j = int (bisect_left xs t)
                 in bind_err (py_index xs (j - 1)) (\<lambda>xa.
                    bind_err (py_index xs j) (\<lambda>xb.
                    bind_err (py_index ln_dfs (j - 1)) (\<lambda>ya.
                    bind_err (py_index ln_dfs j) (\<lambda>yb.
                    Inr (exp (interp_linear t xa xb ya yb)))))))))"

section \<open>Scenario shocks\<close>

record ParallelShock =
  name :: string
  shift_bps :: real

definition shift_decimal :: "ParallelShock \<Rightarrow> real" where
  "shift_decimal s = shift_bps s / 10000"

text \<open>
  The canonical long table, a pandas \<^verbatim>\<open>DataFrame\<close>: the labels of its columns and its rows.
  A row carries the five cells the engine reads; a numeric cell is \<open>None\<close> when it is null
  (NaN). Where a label is absent from \<open>columns\<close> the column does not exist, and the
  engine stops before it reads the cell. Index names are strings, on which
  \<^verbatim>\<open>astype(str)\<close> changes nothing.
\<close>

record CurveRow =
  IndexName :: string
  Tenor :: string
  FwdRate :: "real option"
  TenorDate :: date
  YearFrac :: "real option"

record DataFrame =
  columns :: "string list"
  rows :: "CurveRow list"

text \<open>
  Objects live in a heap and are named by references, so that a table or a curve shared
  between two sets is one object. A new object takes the next free reference. A step
  that works on the heap returns its outcome (a value or the error raised) together with
  the heap it leaves behind: an exception does not undo what was done before it.
\<close>

datatype obj =
    DataFrame_obj DataFrame
  | ForwardCurve_obj ForwardCurve
  | ForwardCurveSet_obj ForwardCurveSet

type_synonym heap = "obj list"

definition alloc :: "heap \<Rightarrow> obj \<Rightarrow> ref \<times> heap" where
  "alloc h v = (length h, h @ [v])"

definition get_DataFrame :: "heap \<Rightarrow> ref \<Rightarrow> error + DataFrame" where
  "get_DataFrame h a =
     (if a < length h then
        (case h ! a of DataFrame_obj df \<Rightarrow> Inr df | _ \<Rightarrow> Inl AttributeError)
      else Inl AttributeError)"

definition get_ForwardCurve :: "heap \<Rightarrow> ref \<Rightarrow> error + ForwardCurve" where
  "get_ForwardCurve h a =
     (if a < length h then
        (case h ! a of ForwardCurve_obj c \<Rightarrow> Inr c | _ \<Rightarrow> Inl AttributeError)
      else Inl AttributeError)"

definition get_ForwardCurveSet :: "heap \<Rightarrow> ref \<Rightarrow> error + ForwardCurveSet" where
  "get_ForwardCurveSet h a =
     (if a < length h then
        (case h ! a of ForwardCurveSet_obj s \<Rightarrow> Inr s | _ \<Rightarrow> Inl AttributeError)
      else Inl AttributeError)"

definition bind_heap ::
  "(error + 'a) \<times> heap \<Rightarrow> ('a \<Rightarrow> heap \<Rightarrow> (error + 'b) \<times> heap) \<Rightarrow> (error + 'b) \<times> heap"
where
  "bind_heap m f = (case fst m of Inl e \<Rightarrow> (Inl e, snd m) | Inr v \<Rightarrow> f v (snd m))"

text \<open>
  Strings of index names and tenors. A character stands for a code point below 256.
  \<^verbatim>\<open>str.strip\<close> removes leading and trailing whitespace; among these code points
  Python counts as whitespace U+0009 to U+000D, U+001C to U+001F, U+0020, U+0085 (next
  line) and U+00A0 (no-break space).
\<close>

definition is_space :: "char \<Rightarrow> bool" where
  "is_space c \<longleftrightarrow>
     c \<in> {CHR '' '', CHR 0x09, CHR 0x0A, CHR 0x0B, CHR 0x0C, CHR 0x0D,
          CHR 0x1C, CHR 0x1D, CHR 0x1E, CHR 0x1F, CHR 0x85, CHR 0xA0}"

definition strip :: "string \<Rightarrow> string" where
  "strip s = rev (dropWhile is_space (rev (dropWhile is_space s)))"

text \<open>
  \<^verbatim>\<open>str.upper\<close> on the letters of ASCII, of which tenor codes are made. It serves only the
  field \<open>tenor\<close> of a curve point, which no query of the curve reads.
\<close>

definition upper :: "string \<Rightarrow> string" where
  "upper s =
     map (\<lambda>c. if CHR ''a'' \<le> c \<and> c \<le> CHR ''z'' then char_of (of_char c - (32 :: nat)) else c) s"

definition REQUIRED_COLUMNS :: "string list" where
  "REQUIRED_COLUMNS = [''IndexName'', ''Tenor'', ''FwdRate'', ''TenorDate'', ''YearFrac'']"

text \<open>
  \<^verbatim>\<open>validate_curve_points_columns\<close> and \<^verbatim>\<open>rebuild_curves\<close> are imported by
  \<^verbatim>\<open>engine/scenarios/apply.py\<close> from its module \<^verbatim>\<open>_curve_utils\<close>; their text is that of the
  functions of the same names in \<^verbatim>\<open>almready/scenarios/apply.py\<close>, whose
  \<^verbatim>\<open>apply_parallel_shock\<close> is the same function line by line.
\<close>

definition validate_curve_points_columns :: "DataFrame \<Rightarrow> error + unit" where
  "validate_curve_points_columns df_points =
     (let missing = filter (\<lambda>c. c \<notin> set (columns df_points)) REQUIRED_COLUMNS
      in if missing \<noteq> [] then Inl InvalidCurveTable else Inr ())"

definition curve_from_long_df :: "DataFrame \<Rightarrow> string \<Rightarrow> error + ForwardCurve" where
  "curve_from_long_df df_long ix =
     (let missing = filter (\<lambda>c. c \<notin> set (columns df_long)) REQUIRED_COLUMNS
      in if missing \<noteq> [] then Inl InvalidCurveTable
         else
           let sub = filter (\<lambda>r. IndexName r = ix) (rows df_long)
           in if sub = [] then Inl NoPointsForIndex
              else if list_ex (\<lambda>r. YearFrac r = None) sub then Inl NullYearFrac
              else if list_ex (\<lambda>r. FwdRate r = None) sub then Inl NullFwdRate
              else ForwardCurve_new ix
                     (map (\<lambda>r. \<lparr>year_frac = the (YearFrac r), rate = the (FwdRate r),
                                 tenor = upper (strip (Tenor r)),
                                 tenor_date = TenorDate r\<rparr>) sub))"

text \<open>
  The loop of \<^verbatim>\<open>rebuild_curves\<close> over the sorted index names: each curve is a new object,
  entered in the dictionary under its name.
\<close>

fun rebuild_curves_loop ::
  "DataFrame \<Rightarrow> string list \<Rightarrow> (string \<rightharpoonup> ref) \<Rightarrow> heap \<Rightarrow> (error + (string \<rightharpoonup> ref)) \<times> heap"
where
  "rebuild_curves_loop df [] cs h = (Inr cs, h)"
| "rebuild_curves_loop df (ix # ixs) cs h =
     bind_heap (curve_from_long_df df ix, h) (\<lambda>c h.
     let (a, h) = alloc h (ForwardCurve_obj c)
     in rebuild_curves_loop df ixs (cs(ix \<mapsto> a)) h)"

definition rebuild_curves :: "heap \<Rightarrow> ref \<Rightarrow> (error + (string \<rightharpoonup> ref)) \<times> heap" where
  "rebuild_curves h df_points =
     bind_heap (get_DataFrame h df_points, h) (\<lambda>df h.
     let indexes = sort (remdups (map IndexName (rows df)))
     in rebuild_curves_loop df indexes Map.empty h)"

definition normalise_apply_to :: "string list option \<Rightarrow> string set \<Rightarrow> error + string set" where
  "normalise_apply_to apply_to available_indexes =
     (case apply_to of
        None \<Rightarrow> Inr available_indexes
      | Some ixs \<Rightarrow>
          let selected = set (map strip (filter (\<lambda>ix. strip ix \<noteq> []) ixs))
          in if selected = {} then Inl EmptyShockTarget
             else if selected - available_indexes \<noteq> {} then Inl UnknownIndex
             else Inr selected)"

text \<open>
  The assignment \<^verbatim>\<open>df.loc[mask, "FwdRate"] = df.loc[mask, "FwdRate"].astype(float) + shift\<close>,
  with \<^verbatim>\<open>mask\<close> the rows whose index name is selected. A null rate stays null.
\<close>

definition shift_FwdRate :: "string set \<Rightarrow> real \<Rightarrow> DataFrame \<Rightarrow> DataFrame" where
  "shift_FwdRate selected_indexes shift df =
     df\<lparr>rows := map (\<lambda>r. if IndexName r \<in> selected_indexes
                           then r\<lparr>FwdRate := map_option (\<lambda>v. v + shift) (FwdRate r)\<rparr>
                           else r) (rows df)\<rparr>"

text \<open>
  \<^verbatim>\<open>apply_parallel_shock\<close>. The deep copy of the table is a new object holding the same
  value; the assignment to its rates is an update of the heap at the reference of the
  copy; the curves and the set returned are new objects.
\<close>

definition apply_parallel_shock ::
  "heap \<Rightarrow> ref \<Rightarrow> ParallelShock \<Rightarrow> string list option \<Rightarrow> (error + ref) \<times> heap"
where
  "apply_parallel_shock h base_set shock apply_to =
     bind_heap (get_ForwardCurveSet h base_set, h) (\<lambda>bs h.
     bind_heap (get_DataFrame h (ForwardCurveSet.points bs), h) (\<lambda>base_points h.
     bind_heap (validate_curve_points_columns base_points, h) (\<lambda>_ h.
     let (df_shifted, h) = alloc h (DataFrame_obj base_points)
     in bind_heap (get_DataFrame h df_shifted, h) (\<lambda>df h.
        let available_indexes = set (map IndexName (rows df))
        in bind_heap (normalise_apply_to apply_to available_indexes, h) (\<lambda>selected_indexes h.
           let h = h[df_shifted :=
                       DataFrame_obj (shift_FwdRate selected_indexes (shift_decimal shock) df)]
           in bind_heap (rebuild_curves h df_shifted) (\<lambda>shifted_curves h.
              let (r, h) = alloc h (ForwardCurveSet_obj
                     \<lparr>analysis_date = analysis_date bs, base = base bs,
                      ForwardCurveSet.points = df_shifted,
                      curves = shifted_curves\<rparr>)
              in (Inr r, h)))))))"



section \<open>A base set for the closed instances\<close>

text \<open>
  A heap holding one base set with two indices: its table, the curves built from the
  table, and the set itself at reference 3. The instances of the theorems on scenarios
  below are taken on it.
\<close>

definition example_table :: DataFrame where
  "example_table =
     \<lparr>columns = [''IndexName'', ''Tenor'', ''FwdRate'', ''TenorDate'', ''YearFrac''],
      rows =
        [\<lparr>IndexName = ''EUR'', Tenor = ''1Y'', FwdRate = Some (2 / 100),
          TenorDate = \<lparr>year = 2025, month = 1, day = 1\<rparr>, YearFrac = Some 1\<rparr>,
         \<lparr>IndexName = ''EUR'', Tenor = ''2Y'', FwdRate = Some (3 / 100),
          TenorDate = \<lparr>year = 2026, month = 1, day = 1\<rparr>, YearFrac = Some 2\<rparr>,
         \<lparr>IndexName = ''USD'', Tenor = ''1Y'', FwdRate = Some (5 / 100),
          TenorDate = \<lparr>year = 2025, month = 1, day = 1\<rparr>, YearFrac = Some 1\<rparr>]\<rparr>"

definition example_set :: ForwardCurveSet where
  "example_set =
     \<lparr>analysis_date = \<lparr>year = 2024, month = 1, day = 1\<rparr>, base = ''ACT/365'',
      ForwardCurveSet.points = 0, curves = [''EUR'' \<mapsto> 1, ''USD'' \<mapsto> 2]\<rparr>"

definition example_heap :: heap where
  "example_heap =
     [DataFrame_obj example_table,
      ForwardCurve_obj
        \<lparr>index_name = ''EUR'',
         points = [\<lparr>year_frac = 1, rate = 2 / 100, tenor = ''1Y'',
                    tenor_date = \<lparr>year = 2025, month = 1, day = 1\<rparr>\<rparr>,
                   \<lparr>year_frac = 2, rate = 3 / 100, tenor = ''2Y'',
                    tenor_date = \<lparr>year = 2026, month = 1, day = 1\<rparr>\<rparr>]\<rparr>,
      ForwardCurve_obj
        \<lparr>index_name = ''USD'',
         points = [\<lparr>year_frac = 1, rate = 5 / 100, tenor = ''1Y'',
                    tenor_date = \<lparr>year = 2025, month = 1, day = 1\<rparr>\<rparr>]\<rparr>,
      ForwardCurveSet_obj example_set]"

definition shock_up :: ParallelShock where
  "shock_up = \<lparr>name = ''up'', shift_bps = 200\<rparr>"

section \<open>Properties of the day-count arithmetic\<close>

lemmas base_defs = BASE_ACT_360_def BASE_ACT_365_def BASE_ACT_ACT_def BASE_30_360_def

subsection \<open>The calendar\<close>

lemma div_step: "0 < k \<Longrightarrow> (z + 1) div k - z div k = (if (z + 1) mod k = 0 then 1 else 0)" for z k :: int
proof -
  assume k: "0 < k"
  have e1: "z + 1 = k * ((z + 1) div k) + (z + 1) mod k" by simp
  have b1: "0 \<le> (z + 1) mod k" "(z + 1) mod k < k" using k by simp_all
  show ?thesis
  proof (cases "(z + 1) mod k = 0")
    case True
    then have "z + 1 = k * ((z + 1) div k)" using e1 by simp
    then have "z = k * ((z + 1) div k - 1) + (k - 1)" by (simp add: algebra_simps)
    moreover have "0 \<le> k - 1" "k - 1 < k" using k by linarith+
    ultimately have "z div k = (z + 1) div k - 1"
      by (metis int_div_pos_eq)
    with True show ?thesis by simp
  next
    case False
    then have "1 \<le> (z + 1) mod k" using b1 by linarith
    then have "z = k * ((z + 1) div k) + ((z + 1) mod k - 1)" using e1 by linarith
    moreover have "0 \<le> (z + 1) mod k - 1" "(z + 1) mod k - 1 < k" using \<open>1 \<le> (z + 1) mod k\<close> b1 by linarith+
    ultimately have "z div k = (z + 1) div k"
      by (metis int_div_pos_eq)
    with False show ?thesis by simp
  qed
qed

lemma days_before_year_step: "days_before_year (y + 1) - days_before_year y = diy y"
proof -
  have a: "y div 4 - (y - 1) div 4 = (if y mod 4 = 0 then 1 else 0)"
    using div_step [of 4 "y - 1"] by simp
  have b: "y div 100 - (y - 1) div 100 = (if y mod 100 = 0 then 1 else 0)"
    using div_step [of 100 "y - 1"] by simp
  have c: "y div 400 - (y - 1) div 400 = (if y mod 400 = 0 then 1 else 0)"
    using div_step [of 400 "y - 1"] by simp
  have d: "y mod 400 = 0 \<Longrightarrow> y mod 100 = 0" by presburger
  have e: "y mod 100 = 0 \<Longrightarrow> y mod 4 = 0" by presburger
  have "days_before_year (y + 1) - days_before_year y
        = 365 + (y div 4 - (y - 1) div 4) - (y div 100 - (y - 1) div 100) + (y div 400 - (y - 1) div 400)"
    by (simp add: days_before_year_def Let_def algebra_simps)
  also have "\<dots> = diy y"
    unfolding a b c diy_def is_leap_year_def using d e by auto
  finally show ?thesis .
qed

lemma diy_pos: "0 < diy y"
  by (simp add: diy_def)

lemma year_start_step: "year_start (y + 1) = year_start y + diy y"
  using days_before_year_step [of y] by (simp add: year_start_def)

lemma year_start_mono: "y \<le> y' \<Longrightarrow> year_start y \<le> year_start y'"
proof (induction y' rule: int_ge_induct)
  case base
  show ?case by simp
next
  case (step i)
  then show ?case using year_start_step [of i] diy_pos [of i] by linarith
qed

lemma month_cases:
  "1 \<le> m \<Longrightarrow> m \<le> 12 \<Longrightarrow>
   m = 1 \<or> m = 2 \<or> m = 3 \<or> m = 4 \<or> m = 5 \<or> m = 6 \<or> m = 7 \<or> m = 8 \<or> m = 9 \<or> m = 10 \<or> m = 11 \<or> m = (12::int)"
  by arith

lemma month_end_le_year:
  "1 \<le> m \<Longrightarrow> m \<le> 12 \<Longrightarrow> days_before_month y m + last_day_of_month y m \<le> diy y"
  using month_cases [of m]
  by (auto simp: days_before_month_def last_day_of_month_def diy_def)

lemma days_before_month_nonneg: "0 \<le> days_before_month y m"
  by (simp add: days_before_month_def)

lemma toordinal_in_year:
  assumes "valid_date d"
  shows "year_start (year d) \<le> toordinal d" and "toordinal d < year_start (year d + 1)"
proof -
  have m: "1 \<le> month d" "month d \<le> 12" and dd: "1 \<le> day d" "day d \<le> last_day_of_month (year d) (month d)"
    using assms by (simp_all add: valid_date_def)
  show "year_start (year d) \<le> toordinal d"
    using dd(1) days_before_month_nonneg [of "year d" "month d"]
    by (simp add: year_start_def toordinal_def)
  show "toordinal d < year_start (year d + 1)"
    using dd(2) month_end_le_year [OF m, of "year d"] year_start_step [of "year d"]
    by (simp add: year_start_def toordinal_def)
qed

lemma month_end_le_later:
  "1 \<le> m \<Longrightarrow> m < m' \<Longrightarrow> m' \<le> 12 \<Longrightarrow>
   days_before_month y m + last_day_of_month y m \<le> days_before_month y m'"
  using month_cases [of m] month_cases [of m']
  by (auto simp: days_before_month_def last_day_of_month_def)

lemma toordinal_mono_same_year:
  assumes "valid_date d0" "valid_date d1" "year d0 = year d1" "\<not> date_less d1 d0"
  shows "toordinal d0 \<le> toordinal d1"
proof (cases "month d0 = month d1")
  case True
  then show ?thesis using assms by (auto simp: toordinal_def date_less_def)
next
  case False
  then have lt: "month d0 < month d1" using assms by (auto simp: date_less_def)
  have "days_before_month (year d0) (month d0) + day d0
        \<le> days_before_month (year d0) (month d0) + last_day_of_month (year d0) (month d0)"
    using assms(1) by (simp add: valid_date_def)
  also have "\<dots> \<le> days_before_month (year d0) (month d1)"
    using month_end_le_later [OF _ lt] assms(1,2) by (simp add: valid_date_def)
  also have "\<dots> \<le> days_before_month (year d1) (month d1) + day d1"
    using assms(2,3) by (simp add: valid_date_def)
  finally show ?thesis using assms(3) by (simp add: toordinal_def)
qed

lemma toordinal_jan1: "toordinal \<lparr>year = y, month = 1, day = 1\<rparr> = year_start y"
  by (simp add: toordinal_def year_start_def days_before_month_def)

lemma valid_jan1: "1 \<le> y \<Longrightarrow> y \<le> 9999 \<Longrightarrow> valid_date \<lparr>year = y, month = 1, day = 1\<rparr>"
  by (simp add: valid_date_def last_day_of_month_def)

subsection \<open>ACT/ACT-ISDA against its reading by calendar-year fragments\<close>

lemma fragment_days_whole_year:
  assumes "valid_date d0" "valid_date d1" "year d0 < y" "y < year d1"
  shows "fragment_days d0 d1 y = diy y"
proof -
  have "toordinal d0 < year_start (year d0 + 1)" using toordinal_in_year(2) [OF assms(1)] .
  also have "\<dots> \<le> year_start y" using assms(3) by (intro year_start_mono) simp
  finally have a: "max (toordinal d0) (year_start y) = year_start y" by simp
  have "year_start (y + 1) \<le> year_start (year d1)" using assms(4) by (intro year_start_mono) simp
  also have "\<dots> \<le> toordinal d1" using toordinal_in_year(1) [OF assms(2)] .
  finally have b: "min (toordinal d1) (year_start (y + 1)) = year_start (y + 1)" by simp
  show ?thesis
    unfolding fragment_days_def a b using year_start_step [of y] diy_pos [of y] by simp
qed

lemma fragment_days_same_year:
  assumes "valid_date d0" "valid_date d1" "year d0 = year d1" "\<not> date_less d1 d0"
  shows "fragment_days d0 d1 (year d0) = days_between d0 d1"
proof -
  have a: "max (toordinal d0) (year_start (year d0)) = toordinal d0"
    using toordinal_in_year(1) [OF assms(1)] by simp
  have b: "min (toordinal d1) (year_start (year d0 + 1)) = toordinal d1"
    using toordinal_in_year(2) [OF assms(2)] assms(3) by simp
  show ?thesis
    unfolding fragment_days_def a b days_between_def
    using toordinal_mono_same_year [OF assms] by simp
qed

lemma fragment_days_first_year:
  assumes "valid_date d0" "valid_date d1" "year d0 < year d1"
  shows "fragment_days d0 d1 (year d0) = year_start (year d0 + 1) - toordinal d0"
proof -
  have a: "max (toordinal d0) (year_start (year d0)) = toordinal d0"
    using toordinal_in_year(1) [OF assms(1)] by simp
  have "year_start (year d0 + 1) \<le> year_start (year d1)"
    using assms(3) by (intro year_start_mono) simp
  also have "\<dots> \<le> toordinal d1" using toordinal_in_year(1) [OF assms(2)] .
  finally have b: "min (toordinal d1) (year_start (year d0 + 1)) = year_start (year d0 + 1)" by simp
  show ?thesis
    unfolding fragment_days_def a b using toordinal_in_year(2) [OF assms(1)] by simp
qed

lemma fragment_days_last_year:
  assumes "valid_date d0" "valid_date d1" "year d0 < year d1"
  shows "fragment_days d0 d1 (year d1) = toordinal d1 - year_start (year d1)"
proof -
  have "toordinal d0 < year_start (year d0 + 1)" using toordinal_in_year(2) [OF assms(1)] .
  also have "\<dots> \<le> year_start (year d1)" using assms(3) by (intro year_start_mono) simp
  finally have a: "max (toordinal d0) (year_start (year d1)) = year_start (year d1)" by simp
  have b: "min (toordinal d1) (year_start (year d1 + 1)) = toordinal d1"
    using toordinal_in_year(2) [OF assms(2)] by simp
  show ?thesis
    unfolding fragment_days_def a b using toordinal_in_year(1) [OF assms(2)] by simp
qed

lemma sum_whole_years:
  assumes "valid_date d0" "valid_date d1"
  shows "year d0 < lo \<Longrightarrow> hi < year d1 \<Longrightarrow>
         sum_list (map (\<lambda>y. real_of_int (fragment_days d0 d1 y) / real_of_int (diy y)) [lo..hi])
         = real_of_int (max 0 (hi - lo + 1))"
proof (induction lo hi rule: upto.induct)
  case (1 i j)
  show ?case
  proof (cases "i \<le> j")
    case True
    have f: "fragment_days d0 d1 i = diy i"
      using fragment_days_whole_year [OF assms, of i] 1(2,3) True by simp
    have ih: "sum_list (map (\<lambda>y. real_of_int (fragment_days d0 d1 y) / real_of_int (diy y)) [i + 1..j])
          = real_of_int (max 0 (j - (i + 1) + 1))"
      using 1(1) [OF True] 1(2,3) by simp
    have nz: "real_of_int (diy i) \<noteq> 0" using diy_pos [of i] by simp
    show ?thesis
      using True ih nz by (simp add: upto_rec1 [of i j] f)
  next
    case False
    then show ?thesis by simp
  qed
qed

lemma act_act_isda_refines:
  assumes v0: "valid_date d0" and v1: "valid_date d1" and ord: "\<not> date_less d1 d0"
  shows "yearfrac_act_act_isda d0 d1 = Inr (act_act_isda_fragments d0 d1)"
proof (cases "d0 = d1")
  case True
  have "fragment_days d0 d0 (year d0) = 0"
    using fragment_days_same_year [of d0 d0] v0 by (simp add: date_less_def days_between_def)
  then show ?thesis
    using True by (simp add: yearfrac_act_act_isda_def date_less_def act_act_isda_fragments_def)
next
  case ne: False
  show ?thesis
  proof (cases "year d0 = year d1")
    case True
    have "[year d0..year d1] = [year d0]" using True by simp
    then show ?thesis
      using ne True ord fragment_days_same_year [OF v0 v1 True ord]
      by (simp add: yearfrac_act_act_isda_def act_act_isda_fragments_def)
  next
    case False
    then have lt: "year d0 < year d1" using ord by (auto simp: date_less_def)
    have y0: "1 \<le> year d0 + 1" "year d0 + 1 \<le> 9999" and y1: "1 \<le> year d1" "year d1 \<le> 9999"
      using v0 v1 lt by (simp_all add: valid_date_def)
    have n0: "date_new (year d0 + 1) 1 1 = Inr \<lparr>year = year d0 + 1, month = 1, day = 1\<rparr>"
      using valid_jan1 [OF y0] by (simp add: date_new_def)
    have n1: "date_new (year d1) 1 1 = Inr \<lparr>year = year d1, month = 1, day = 1\<rparr>"
      using valid_jan1 [OF y1] by (simp add: date_new_def)
    have code: "yearfrac_act_act_isda d0 d1 =
        Inr (real_of_int (year_start (year d0 + 1) - toordinal d0) / real_of_int (diy (year d0))
             + real_of_int (max 0 (year d1 - year d0 - 1))
             + real_of_int (toordinal d1 - year_start (year d1)) / real_of_int (diy (year d1)))"
      using ne False ord
      by (simp add: yearfrac_act_act_isda_def n0 n1 bind_err_def Let_def days_between_def toordinal_jan1)
    have split: "[year d0..year d1] = year d0 # [year d0 + 1..year d1 - 1] @ [year d1]"
      using lt upto_rec1 [of "year d0" "year d1"] upto_rec2 [of "year d0 + 1" "year d1"] by simp
    have mid: "sum_list (map (\<lambda>y. real_of_int (fragment_days d0 d1 y) / real_of_int (diy y))
                 [year d0 + 1..year d1 - 1]) = real_of_int (max 0 (year d1 - year d0 - 1))"
      using sum_whole_years [OF v0 v1, of "year d0 + 1" "year d1 - 1"] by simp
    have "act_act_isda_fragments d0 d1 =
        real_of_int (year_start (year d0 + 1) - toordinal d0) / real_of_int (diy (year d0))
             + real_of_int (max 0 (year d1 - year d0 - 1))
             + real_of_int (toordinal d1 - year_start (year d1)) / real_of_int (diy (year d1))"
      unfolding act_act_isda_fragments_def split
      using mid fragment_days_first_year [OF v0 v1 lt] fragment_days_last_year [OF v0 v1 lt]
      by simp
    with code show ?thesis by simp
  qed
qed

lemma yearfrac_30_360_us_same_day: "yearfrac_30_360_us d d = Inr 0"
  by (simp add: yearfrac_30_360_us_def date_less_def Let_def)

lemma yearfrac_act_act_isda_total:
  assumes "valid_date d0" "valid_date d1" "\<not> date_less d1 d0"
  shows "\<exists>v. yearfrac_act_act_isda d0 d1 = Inr v"
  using act_act_isda_refines [OF assms] by blast

lemma yearfrac_canonical:
  assumes "\<not> date_less d1 d0"
  shows "yearfrac d0 d1 BASE_ACT_360 = Inr (real_of_int (days_between d0 d1) / 360)"
    and "yearfrac d0 d1 BASE_ACT_365 = Inr (real_of_int (days_between d0 d1) / 365)"
    and "yearfrac d0 d1 BASE_ACT_ACT = yearfrac_act_act_isda d0 d1"
    and "yearfrac d0 d1 BASE_30_360 = yearfrac_30_360_us d0 d1"
  using assms by (simp_all add: yearfrac_def base_defs)

lemma yearfrac_30_360_us_total: "\<not> date_less d1 d0 \<Longrightarrow> \<exists>v. yearfrac_30_360_us d0 d1 = Inr v"
  unfolding yearfrac_30_360_us_def Let_def by (simp only: if_False) (rule exI, rule refl)


text \<open>
  Claim C7. Over ACT/ACT-ISDA, \<open>yearfrac\<close> cuts the interval from d0 to d1 at the
  calendar-year boundaries, divides the days of each calendar year by the length of that
  year (366 in a leap year, 365 otherwise) and adds the quotients: it returns
  \<open>act_act_isda_fragments d0 d1\<close>. Each whole calendar year strictly between the two
  years contributes exactly 1. From 2023-12-01 to 2024-03-01 the result is
  31/365 + 60/366.
\<close>

theorem yearfrac_act_act_isda_fragments:
  "(valid_date d0 \<and> valid_date d1 \<and> \<not> date_less d1 d0 \<longrightarrow>
      yearfrac d0 d1 BASE_ACT_ACT = Inr (act_act_isda_fragments d0 d1) \<and>
      (\<forall>y. year d0 < y \<and> y < year d1 \<longrightarrow>
            real_of_int (fragment_days d0 d1 y) / real_of_int (diy y) = 1)) \<and>
   yearfrac \<lparr>year = 2023, month = 12, day = 1\<rparr> \<lparr>year = 2024, month = 3, day = 1\<rparr> BASE_ACT_ACT
     = Inr (31 / 365 + 60 / 366)"
proof (intro conjI impI allI)
  assume a: "valid_date d0 \<and> valid_date d1 \<and> \<not> date_less d1 d0"
  then show "yearfrac d0 d1 BASE_ACT_ACT = Inr (act_act_isda_fragments d0 d1)"
    using act_act_isda_refines [of d0 d1] by (simp add: yearfrac_def base_defs)
  fix y assume "year d0 < y \<and> y < year d1"
  then show "real_of_int (fragment_days d0 d1 y) / real_of_int (diy y) = 1"
    using a fragment_days_whole_year [of d0 d1 y] diy_pos [of y] by simp
next
  show "yearfrac \<lparr>year = 2023, month = 12, day = 1\<rparr> \<lparr>year = 2024, month = 3, day = 1\<rparr> BASE_ACT_ACT
     = Inr (31 / 365 + 60 / 366)"
    by (simp add: yearfrac_def yearfrac_act_act_isda_def date_less_def base_defs is_leap_year_def
        Let_def date_new_def valid_date_def last_day_of_month_def bind_err_def days_between_def
        toordinal_def days_before_year_def days_before_month_def diy_def)
qed

theorem yearfrac_act_act_isda_fragments_witness:
  "valid_date \<lparr>year = 2023, month = 12, day = 1\<rparr> \<and>
   valid_date \<lparr>year = 2025, month = 3, day = 1\<rparr> \<and>
   \<not> date_less \<lparr>year = 2025, month = 3, day = 1\<rparr> \<lparr>year = 2023, month = 12, day = 1\<rparr> \<and>
   yearfrac \<lparr>year = 2023, month = 12, day = 1\<rparr> \<lparr>year = 2025, month = 3, day = 1\<rparr> BASE_ACT_ACT
     = Inr (act_act_isda_fragments \<lparr>year = 2023, month = 12, day = 1\<rparr>
              \<lparr>year = 2025, month = 3, day = 1\<rparr>) \<and>
   real_of_int (fragment_days \<lparr>year = 2023, month = 12, day = 1\<rparr>
                  \<lparr>year = 2025, month = 3, day = 1\<rparr> 2024) / real_of_int (diy 2024) = 1"
proof -
  have h: "valid_date \<lparr>year = 2023, month = 12, day = 1\<rparr> \<and>
           valid_date \<lparr>year = 2025, month = 3, day = 1\<rparr> \<and>
           \<not> date_less \<lparr>year = 2025, month = 3, day = 1\<rparr> \<lparr>year = 2023, month = 12, day = 1\<rparr>"
    by (simp add: valid_date_def last_day_of_month_def date_less_def)
  from yearfrac_act_act_isda_fragments
      [of "\<lparr>year = 2023, month = 12, day = 1\<rparr>" "\<lparr>year = 2025, month = 3, day = 1\<rparr>"] h
  have a: "yearfrac \<lparr>year = 2023, month = 12, day = 1\<rparr> \<lparr>year = 2025, month = 3, day = 1\<rparr> BASE_ACT_ACT
     = Inr (act_act_isda_fragments \<lparr>year = 2023, month = 12, day = 1\<rparr>
              \<lparr>year = 2025, month = 3, day = 1\<rparr>)"
    and b: "\<forall>y. year \<lparr>year = 2023, month = 12, day = 1\<rparr> < y \<and> y < year \<lparr>year = 2025, month = 3, day = 1\<rparr> \<longrightarrow>
       real_of_int (fragment_days \<lparr>year = 2023, month = 12, day = 1\<rparr>
                  \<lparr>year = 2025, month = 3, day = 1\<rparr> y) / real_of_int (diy y) = 1"
    by blast+
  from spec [OF b, of 2024] have "real_of_int (fragment_days \<lparr>year = 2023, month = 12, day = 1\<rparr>
                  \<lparr>year = 2025, month = 3, day = 1\<rparr> 2024) / real_of_int (diy 2024) = 1"
    by simp
  with a h show ?thesis by blast
qed

subsection \<open>30/360-US\<close>

text \<open>
  Claim C5, as stated: \<open>yearfrac\<close> over 30/360-US from 2024-01-31 to 2024-02-29 would be 0.
  The code does not return 0 there.
\<close>

theorem jan31_feb29_30_360_us_not_zero:
  "yearfrac \<lparr>year = 2024, month = 1, day = 31\<rparr> \<lparr>year = 2024, month = 2, day = 29\<rparr> BASE_30_360
     \<noteq> Inr 0"
  by (simp add: yearfrac_def yearfrac_30_360_us_def date_less_def base_defs
      is_last_day_of_february_def is_last_day_of_month_def last_day_of_month_def
      is_leap_year_def Let_def)


text \<open>
  Claim C5, amended. Under the clamping rule the day of d1 (29, the last day of February,
  with the day of d0 being 31) becomes 30 and the day of d0 (31) becomes 30, so the day
  difference is 0; the month difference of 1 contributes 30 days, and \<open>yearfrac\<close> returns
  30/360.
\<close>

theorem jan31_feb29_30_360_us_value:
  "yearfrac \<lparr>year = 2024, month = 1, day = 31\<rparr> \<lparr>year = 2024, month = 2, day = 29\<rparr> BASE_30_360
     = Inr (30 / 360)"
  by (simp add: yearfrac_def yearfrac_30_360_us_def date_less_def base_defs
      is_last_day_of_february_def is_last_day_of_month_def last_day_of_month_def
      is_leap_year_def Let_def)


subsection \<open>Date order\<close>

text \<open>
  Claim C8. For valid dates and each of the four canonical conventions, \<open>yearfrac\<close>
  fails with \<open>InvalidDateOrder\<close> exactly when d1 is before d0, returns a value otherwise,
  and returns 0 when the two dates are equal.
\<close>

theorem yearfrac_date_order:
  assumes "valid_date d0" and "valid_date d1"
    and "b \<in> {BASE_ACT_360, BASE_ACT_365, BASE_ACT_ACT, BASE_30_360}"
  shows "(yearfrac d0 d1 b = Inl InvalidDateOrder \<longleftrightarrow> date_less d1 d0) \<and>
         (\<not> date_less d1 d0 \<longrightarrow> (\<exists>v. yearfrac d0 d1 b = Inr v)) \<and>
         yearfrac d0 d0 b = Inr 0"
proof -
  have nl: "\<not> date_less d0 d0" by (simp add: date_less_def)
  have aa: "yearfrac_act_act_isda d0 d0 = Inr 0"
    using nl by (simp add: yearfrac_act_act_isda_def)
  have z: "yearfrac d0 d0 b = Inr 0"
    using assms(3) yearfrac_canonical [OF nl] aa yearfrac_30_360_us_same_day [of d0]
    by (auto simp: days_between_def)
  have t: "\<exists>v. yearfrac d0 d1 b = Inr v" if "\<not> date_less d1 d0"
    using assms(3) yearfrac_canonical [OF that] yearfrac_act_act_isda_total [OF assms(1,2) that]
      yearfrac_30_360_us_total [OF that]
    by auto
  have f: "yearfrac d0 d1 b = Inl InvalidDateOrder" if "date_less d1 d0"
    using that by (simp add: yearfrac_def)
  show ?thesis
  proof (cases "date_less d1 d0")
    case True
    with f z show ?thesis by simp
  next
    case False
    from t [OF False] obtain v where "yearfrac d0 d1 b = Inr v" by blast
    with False z show ?thesis by simp
  qed
qed


theorem yearfrac_date_order_witness:
  "valid_date \<lparr>year = 2024, month = 2, day = 29\<rparr> \<and>
   valid_date \<lparr>year = 2024, month = 1, day = 31\<rparr> \<and>
   BASE_30_360 \<in> {BASE_ACT_360, BASE_ACT_365, BASE_ACT_ACT, BASE_30_360} \<and>
   date_less \<lparr>year = 2024, month = 1, day = 31\<rparr> \<lparr>year = 2024, month = 2, day = 29\<rparr> \<and>
   yearfrac \<lparr>year = 2024, month = 2, day = 29\<rparr> \<lparr>year = 2024, month = 1, day = 31\<rparr> BASE_30_360
     = Inl InvalidDateOrder \<and>
   yearfrac \<lparr>year = 2024, month = 2, day = 29\<rparr> \<lparr>year = 2024, month = 2, day = 29\<rparr> BASE_30_360
     = Inr 0"
proof -
  have v0: "valid_date \<lparr>year = 2024, month = 2, day = 29\<rparr>"
    by (simp add: valid_date_def last_day_of_month_def is_leap_year_def)
  have v1: "valid_date \<lparr>year = 2024, month = 1, day = 31\<rparr>"
    by (simp add: valid_date_def last_day_of_month_def)
  have b: "BASE_30_360 \<in> {BASE_ACT_360, BASE_ACT_365, BASE_ACT_ACT, BASE_30_360}" by simp
  have l: "date_less \<lparr>year = 2024, month = 1, day = 31\<rparr> \<lparr>year = 2024, month = 2, day = 29\<rparr>"
    by (simp add: date_less_def)
  show ?thesis
    using yearfrac_date_order [OF v0 v1 b] v0 v1 b l by simp
qed

section \<open>Properties of the forward curve\<close>

subsection \<open>Construction and segment search\<close>

lemma validate_increasing_iff:
  "validate_increasing prev ps \<longleftrightarrow>
     (\<forall>v. prev = Some v \<longrightarrow> (\<forall>p \<in> set ps. v < year_frac p)) \<and> sorted_wrt (<) (map year_frac ps)"
proof (induction ps arbitrary: prev)
  case Nil
  show ?case by simp
next
  case (Cons p ps)
  show ?case
  proof (cases prev)
    case None
    then show ?thesis using Cons.IH [of "Some (year_frac p)"] by auto
  next
    case (Some v)
    then show ?thesis using Cons.IH [of "Some (year_frac p)"] by (force simp: not_le)
  qed
qed

lemma ForwardCurve_new_Inr:
  assumes "ForwardCurve_new nm pts = Inr c"
  shows "points c = sort_key year_frac pts" and "index_name c = nm" and "pts \<noteq> []"
    and "sorted_wrt (<) (year_fracs c)" and "points c \<noteq> []"
proof -
  from assms have ne: "pts \<noteq> []" and v: "validate_increasing None (sort_key year_frac pts)"
    and c: "c = \<lparr>index_name = nm, points = sort_key year_frac pts\<rparr>"
    by (auto simp: ForwardCurve_new_def Let_def split: if_splits)
  show "points c = sort_key year_frac pts" "index_name c = nm" "pts \<noteq> []" using c ne by simp_all
  show "sorted_wrt (<) (year_fracs c)"
    using v c by (simp add: validate_increasing_iff year_fracs_def)
  have "length (points c) = length pts" using c by simp
  then show "points c \<noteq> []" using ne by auto
qed

lemma bisect_left_loop_spec:
  "sorted_wrt (<) a \<Longrightarrow> lo \<le> hi \<Longrightarrow> hi \<le> length a \<Longrightarrow>
         (\<forall>i < lo. a ! i < x) \<Longrightarrow> (\<forall>i. hi \<le> i \<and> i < length a \<longrightarrow> x \<le> a ! i) \<Longrightarrow>
         lo \<le> bisect_left_loop a x lo hi \<and> bisect_left_loop a x lo hi \<le> hi \<and>
         (\<forall>i < bisect_left_loop a x lo hi. a ! i < x) \<and>
         (\<forall>i. bisect_left_loop a x lo hi \<le> i \<and> i < length a \<longrightarrow> x \<le> a ! i)"
proof (induction a x lo hi rule: bisect_left_loop.induct)
  case (1 a x lo hi)
  note sorted = \<open>sorted_wrt (<) a\<close>
  show ?case
  proof (cases "lo < hi")
    case False
    with 1(4-7) show ?thesis by (simp add: bisect_left_loop.simps [of a x lo hi])
  next
    case True
    define mid where "mid = (lo + hi) div 2"
    have mid: "lo \<le> mid" "mid < hi" using True by (simp_all add: mid_def)
    show ?thesis
    proof (cases "a ! mid < x")
      case lt: True
      have below: "\<forall>i < mid + 1. a ! i < x"
      proof (intro allI impI)
        fix i assume "i < mid + 1"
        then consider "i = mid" | "i < mid" by linarith
        then show "a ! i < x"
        proof cases
          case 1 then show ?thesis using lt by simp
        next
          case 2
          have "a ! i < a ! mid"
            using sorted_wrt_nth_less [OF sorted, where i = i and j = mid] 2 mid(2) 1(5) by simp
          with lt show ?thesis by simp
        qed
      qed
      have ih: "mid + 1 \<le> bisect_left_loop a x (mid + 1) hi \<and> bisect_left_loop a x (mid + 1) hi \<le> hi \<and>
         (\<forall>i < bisect_left_loop a x (mid + 1) hi. a ! i < x) \<and>
         (\<forall>i. bisect_left_loop a x (mid + 1) hi \<le> i \<and> i < length a \<longrightarrow> x \<le> a ! i)"
        using 1(1) [OF True mid_def lt sorted _ 1(5) below 1(7)] mid by simp
      have eq: "bisect_left_loop a x lo hi = bisect_left_loop a x (mid + 1) hi"
        using True lt by (simp add: bisect_left_loop.simps [of a x lo hi] mid_def Let_def)
      show ?thesis unfolding eq using ih mid by auto
    next
      case ge: False
      have above: "\<forall>i. mid \<le> i \<and> i < length a \<longrightarrow> x \<le> a ! i"
      proof (intro allI impI)
        fix i assume i: "mid \<le> i \<and> i < length a"
        then consider "i = mid" | "mid < i" by linarith
        then show "x \<le> a ! i"
        proof cases
          case 1 then show ?thesis using ge by simp
        next
          case 2
          have "a ! mid < a ! i"
            using sorted_wrt_nth_less [OF sorted, where i = mid and j = i] 2 i by simp
          with ge show ?thesis by simp
        qed
      qed
      have ih: "lo \<le> bisect_left_loop a x lo mid \<and> bisect_left_loop a x lo mid \<le> mid \<and>
         (\<forall>i < bisect_left_loop a x lo mid. a ! i < x) \<and>
         (\<forall>i. bisect_left_loop a x lo mid \<le> i \<and> i < length a \<longrightarrow> x \<le> a ! i)"
        using 1(2) [OF True mid_def ge sorted mid(1) _ 1(6) above] mid 1(5) by simp
      have eq: "bisect_left_loop a x lo hi = bisect_left_loop a x lo mid"
        using True ge by (simp add: bisect_left_loop.simps [of a x lo hi] mid_def Let_def)
      show ?thesis unfolding eq using ih mid by auto
    qed
  qed
qed

lemma bisect_left_spec:
  assumes "sorted_wrt (<) a"
  shows "bisect_left a x \<le> length a"
    and "\<And>i. i < bisect_left a x \<Longrightarrow> a ! i < x"
    and "\<And>i. bisect_left a x \<le> i \<Longrightarrow> i < length a \<Longrightarrow> x \<le> a ! i"
  using bisect_left_loop_spec [OF assms, where lo = 0 and hi = "length a" and x = x] by (simp_all add: bisect_left_def)

lemma bisect_left_unique:
  assumes "sorted_wrt (<) a" "k \<le> length a"
    and "\<And>i. i < k \<Longrightarrow> a ! i < x" and "\<And>i. k \<le> i \<Longrightarrow> i < length a \<Longrightarrow> x \<le> a ! i"
  shows "bisect_left a x = k"
proof (rule ccontr)
  assume ne: "bisect_left a x \<noteq> k"
  note b = bisect_left_spec [OF assms(1), where x = x]
  from ne consider "bisect_left a x < k" | "k < bisect_left a x" by linarith
  then show False
  proof cases
    case 1
    then have "a ! bisect_left a x < x" using assms(3) by simp
    moreover have "x \<le> a ! bisect_left a x" using b(3) [of "bisect_left a x"] 1 assms(2) by simp
    ultimately show False by simp
  next
    case 2
    then have "a ! k < x" using b(2) by simp
    moreover have "x \<le> a ! k" using assms(4) [of k] 2 b(1) by simp
    ultimately show False by simp
  qed
qed

lemma py_index_nat: "i < length xs \<Longrightarrow> py_index xs (int i) = Inr (xs ! i)"
  by (simp add: py_index_def)

lemma py_index_0: "xs \<noteq> [] \<Longrightarrow> py_index xs 0 = Inr (xs ! 0)"
  by (simp add: py_index_def)

lemma py_index_m1: "xs \<noteq> [] \<Longrightarrow> py_index xs (- 1) = Inr (xs ! (length xs - 1))"
  by (cases xs) (simp_all add: py_index_def)

lemma py_index_m2: "2 \<le> length xs \<Longrightarrow> py_index xs (- 2) = Inr (xs ! (length xs - 2))"
  by (simp add: py_index_def)

subsection \<open>The branches of the discount factor\<close>

lemma bind_err_simps:
  "bind_err (Inr v) f = f v" "bind_err (Inl e) f = Inl e"
  by (simp_all add: bind_err_def)

lemma curve_lengths:
  "length (year_fracs c) = length (points c)" "length (pillar_ln_dfs c) = length (points c)"
  by (simp_all add: year_fracs_def pillar_ln_dfs_def)

lemma discount_factor_nonpos: "t \<le> 0 \<Longrightarrow> discount_factor c t = Inr 1"
  by (simp add: discount_factor_def)

lemma discount_factor_single:
  assumes "0 < t" "length (points c) = 1"
  shows "discount_factor c t
         = Inr (exp (interp_linear t 0 (year_fracs c ! 0) 0 (pillar_ln_dfs c ! 0)))"
proof -
  have ne: "year_fracs c \<noteq> []" "pillar_ln_dfs c \<noteq> []"
    using assms(2) curve_lengths [of c] by auto
  show ?thesis
    using assms curve_lengths [of c]
    by (simp add: discount_factor_def Let_def bind_err_simps py_index_0 [OF ne(1)] py_index_0 [OF ne(2)])
qed

lemma discount_factor_first:
  assumes "0 < t" "2 \<le> length (points c)" "t \<le> year_fracs c ! 0"
  shows "discount_factor c t
         = Inr (exp (interp_linear t 0 (year_fracs c ! 0) 0 (pillar_ln_dfs c ! 0)))"
proof -
  have ne: "year_fracs c \<noteq> []" "pillar_ln_dfs c \<noteq> []"
    using assms(2) curve_lengths [of c] by auto
  show ?thesis
    using assms curve_lengths [of c]
    by (simp add: discount_factor_def Let_def bind_err_simps py_index_0 [OF ne(1)] py_index_0 [OF ne(2)])
qed

lemma discount_factor_last:
  assumes "0 < t" "2 \<le> length (points c)" "\<not> t \<le> year_fracs c ! 0"
    and "year_fracs c ! (length (points c) - 1) \<le> t"
  shows "discount_factor c t
         = Inr (exp (interp_linear t (year_fracs c ! (length (points c) - 2))
                       (year_fracs c ! (length (points c) - 1))
                       (pillar_ln_dfs c ! (length (points c) - 2))
                       (pillar_ln_dfs c ! (length (points c) - 1))))"
proof -
  have ne: "year_fracs c \<noteq> []" "pillar_ln_dfs c \<noteq> []"
    and l2: "2 \<le> length (year_fracs c)" "2 \<le> length (pillar_ln_dfs c)"
    using assms(2) curve_lengths [of c] by auto
  show ?thesis
    using assms curve_lengths [of c]
    by (simp add: discount_factor_def Let_def bind_err_simps py_index_0 [OF ne(1)]
        py_index_m1 [OF ne(1)] py_index_m1 [OF ne(2)] py_index_m2 [OF l2(1)] py_index_m2 [OF l2(2)])
qed

lemma discount_factor_inner:
  assumes "0 < t" "2 \<le> length (points c)" "\<not> t \<le> year_fracs c ! 0"
    and "\<not> year_fracs c ! (length (points c) - 1) \<le> t"
    and "bisect_left (year_fracs c) t = Suc i" "Suc i < length (points c)"
  shows "discount_factor c t
         = Inr (exp (interp_linear t (year_fracs c ! i) (year_fracs c ! Suc i)
                       (pillar_ln_dfs c ! i) (pillar_ln_dfs c ! Suc i)))"
proof -
  have ne: "year_fracs c \<noteq> []"
    using assms(2) curve_lengths [of c] by auto
  have ix: "py_index (year_fracs c) (int i) = Inr (year_fracs c ! i)"
    "py_index (year_fracs c) (1 + int i) = Inr (year_fracs c ! Suc i)"
    "py_index (pillar_ln_dfs c) (int i) = Inr (pillar_ln_dfs c ! i)"
    "py_index (pillar_ln_dfs c) (1 + int i) = Inr (pillar_ln_dfs c ! Suc i)"
    using assms(6) curve_lengths [of c]
      py_index_nat [of "Suc i" "year_fracs c"] py_index_nat [of "Suc i" "pillar_ln_dfs c"]
    by (simp_all add: py_index_nat)
  show ?thesis
    using assms(1-5) curve_lengths [of c]
    by (simp add: discount_factor_def Let_def bind_err_simps py_index_0 [OF ne]
        py_index_m1 [OF ne] ix)
qed

text \<open>Location of the segment between two adjacent pillars.\<close>

lemma bisect_left_between:
  assumes s: "sorted_wrt (<) xs" and i: "Suc i < length xs"
    and lo: "xs ! i < t" and hi: "t \<le> xs ! Suc i"
  shows "bisect_left xs t = Suc i"
proof (rule bisect_left_unique [OF s])
  show "Suc i \<le> length xs" using i by simp
next
  fix j assume "j < Suc i"
  then consider "j = i" | "j < i" by linarith
  then show "xs ! j < t"
  proof cases
    case 1 then show ?thesis using lo by simp
  next
    case 2
    have "xs ! j < xs ! i" using sorted_wrt_nth_less [OF s, where i = j and j = i] 2 i by simp
    then show ?thesis using lo by simp
  qed
next
  fix j assume j: "Suc i \<le> j" "j < length xs"
  then consider "j = Suc i" | "Suc i < j" by linarith
  then show "t \<le> xs ! j"
  proof cases
    case 1 then show ?thesis using hi by simp
  next
    case 2
    have "xs ! Suc i < xs ! j" using sorted_wrt_nth_less [OF s, where i = "Suc i" and j = j] 2 j by simp
    then show ?thesis using hi by simp
  qed
qed

lemma discount_factor_between:
  assumes s: "sorted_wrt (<) (year_fracs c)" and t: "0 < t"
    and i: "Suc i < length (points c)"
    and lo: "year_fracs c ! i < t" and hi: "t \<le> year_fracs c ! Suc i"
  shows "discount_factor c t
         = Inr (exp (interp_linear t (year_fracs c ! i) (year_fracs c ! Suc i)
                       (pillar_ln_dfs c ! i) (pillar_ln_dfs c ! Suc i)))"
proof -
  let ?n = "length (points c)"
  have len: "length (year_fracs c) = ?n" by (rule curve_lengths)
  have n2: "2 \<le> ?n" using i by simp
  have x0: "year_fracs c ! 0 \<le> year_fracs c ! i"
  proof (cases "i = 0")
    case False
    then show ?thesis
      using sorted_wrt_nth_less [OF s, where i = 0 and j = i] i len by simp
  qed simp
  then have nf: "\<not> t \<le> year_fracs c ! 0" using lo by simp
  show ?thesis
  proof (cases "year_fracs c ! (?n - 1) \<le> t")
    case True
    have "Suc i = ?n - 1"
    proof (rule ccontr)
      assume "Suc i \<noteq> ?n - 1"
      then have "Suc i < ?n - 1" using i by simp
      then have "year_fracs c ! Suc i < year_fracs c ! (?n - 1)"
        using sorted_wrt_nth_less [OF s, where i = "Suc i" and j = "?n - 1"] len n2 by simp
      with hi True show False by simp
    qed
    then have e: "?n - 1 = Suc i" "?n - 2 = i" by simp_all
    show ?thesis using discount_factor_last [OF t n2 nf True] unfolding e .
  next
    case False
    have b: "bisect_left (year_fracs c) t = Suc i"
      using bisect_left_between [OF s _ lo hi] i len by simp
    show ?thesis by (rule discount_factor_inner [OF t n2 nf False b i])
  qed
qed

lemma interp_linear_left: "x0 \<noteq> x1 \<Longrightarrow> interp_linear x0 x0 x1 y0 y1 = y0"
  by (auto simp: interp_linear_def)

lemma interp_linear_right: "interp_linear x1 x0 x1 y0 y1 = y1"
  by (simp add: interp_linear_def)

lemma interp_linear_formula:
  "x0 \<noteq> x1 \<Longrightarrow> interp_linear x x0 x1 y0 y1 = y0 + (x - x0) / (x1 - x0) * (y1 - y0)"
  by (auto simp: interp_linear_def Let_def)

lemma interp_linear_strict_antimono:
  assumes "x0 < x1" "y1 < y0" "a < b"
  shows "interp_linear b x0 x1 y0 y1 < interp_linear a x0 x1 y0 y1"
proof -
  have ne: "x0 \<noteq> x1" using assms(1) by simp
  have h: "(a - x0) / (x1 - x0) < (b - x0) / (x1 - x0)"
    using assms(1,3) by (simp add: divide_strict_right_mono)
  have e: "y1 - y0 < 0" using assms(2) by simp
  have "(b - x0) / (x1 - x0) * (y1 - y0) < (a - x0) / (x1 - x0) * (y1 - y0)"
    by (rule mult_strict_right_mono_neg [OF h e])
  then show ?thesis
    unfolding interp_linear_formula [OF ne] by (simp only: add_less_cancel_left)
qed

text \<open>
  The segment a positive \<open>t\<close> is read on, over the pillars preceded by the anchor (0, 0):
  its number is the count of pillars below \<open>t\<close>, capped at the last segment.
\<close>

lemma discount_factor_segment:
  assumes s: "sorted_wrt (<) (year_fracs c)" and ne: "points c \<noteq> []" and t: "0 < t"
  shows "discount_factor c t
         = Inr (exp (interp_linear t
                  ((0 # year_fracs c) ! min (bisect_left (year_fracs c) t) (length (points c) - 1))
                  ((0 # year_fracs c) ! Suc (min (bisect_left (year_fracs c) t) (length (points c) - 1)))
                  ((0 # pillar_ln_dfs c) ! min (bisect_left (year_fracs c) t) (length (points c) - 1))
                  ((0 # pillar_ln_dfs c) ! Suc (min (bisect_left (year_fracs c) t) (length (points c) - 1)))))"
proof -
  let ?xs = "year_fracs c" and ?n = "length (points c)"
  let ?k = "bisect_left ?xs t"
  have len: "length ?xs = ?n" by (rule curve_lengths)
  note b = bisect_left_spec [OF s, where x = t]
  have n1: "1 \<le> ?n" using ne by (cases "points c") simp_all
  show ?thesis
  proof (cases "?n = 1")
    case True
    then show ?thesis using discount_factor_single [OF t True] by simp
  next
    case False
    then have n2: "2 \<le> ?n" using n1 by simp
    show ?thesis
    proof (cases "t \<le> ?xs ! 0")
      case True
      have "?k = 0"
      proof (rule ccontr)
        assume "?k \<noteq> 0"
        then have "?xs ! 0 < t" using b(2) [of 0] by simp
        with True show False by simp
      qed
      then show ?thesis using discount_factor_first [OF t n2 True] by simp
    next
      case nf: False
      show ?thesis
      proof (cases "?xs ! (?n - 1) \<le> t")
        case True
        have "?xs ! (?n - 2) < ?xs ! (?n - 1)"
          using sorted_wrt_nth_less [OF s, where i = "?n - 2" and j = "?n - 1"] n2 len by simp
        then have "\<not> t \<le> ?xs ! (?n - 2)" using True by simp
        moreover have "t \<le> ?xs ! (?n - 2)" if "?k \<le> ?n - 2"
          using b(3) [OF that] n2 len by simp
        ultimately have "\<not> ?k \<le> ?n - 2" by blast
        then have m: "min ?k (?n - 1) = ?n - 1" by simp
        have e: "Suc (?n - 1) = ?n" "(0 # ?xs) ! (?n - 1) = ?xs ! (?n - 2)"
          "(0 # pillar_ln_dfs c) ! (?n - 1) = pillar_ln_dfs c ! (?n - 2)"
          "(0 # ?xs) ! ?n = ?xs ! (?n - 1)"
          "(0 # pillar_ln_dfs c) ! ?n = pillar_ln_dfs c ! (?n - 1)"
          using n2 ne by (simp_all add: nth_Cons' numeral_2_eq_2)
        show ?thesis using discount_factor_last [OF t n2 nf True] unfolding m e by simp
      next
        case nl: False
        have k0: "?k \<noteq> 0" using b(3) [of 0] nf n2 len ne by auto
        have kn: "?k < ?n"
        proof (rule ccontr)
          assume "\<not> ?k < ?n"
          then have "?xs ! (?n - 1) < t" using b(2) [of "?n - 1"] n2 by simp
          with nl show False by simp
        qed
        obtain i where i: "?k = Suc i" using k0 by (cases ?k) simp_all
        have m: "min ?k (?n - 1) = Suc i" using kn i by simp
        show ?thesis
          using discount_factor_inner [OF t n2 nf nl i] kn i unfolding m by simp
      qed
    qed
  qed
qed

lemma bisect_left_mono:
  assumes s: "sorted_wrt (<) xs" and "u \<le> t"
  shows "bisect_left xs u \<le> bisect_left xs t"
proof (rule ccontr)
  assume "\<not> bisect_left xs u \<le> bisect_left xs t"
  then have lt: "bisect_left xs t < bisect_left xs u" by simp
  note bu = bisect_left_spec [OF s, where x = u] and bt = bisect_left_spec [OF s, where x = t]
  have "xs ! bisect_left xs t < u" using bu(2) [OF lt] .
  moreover have "t \<le> xs ! bisect_left xs t" using bt(3) [of "bisect_left xs t"] lt bu(1) by simp
  ultimately show False using assms(2) by simp
qed

lemma discount_factor_decreasing:
  assumes s: "sorted_wrt (<) (year_fracs c)" and ne: "points c \<noteq> []"
    and pos: "\<forall>p \<in> set (points c). 0 < year_frac p \<and> 0 < rate p"
    and prod: "sorted_wrt (<) (map (\<lambda>p. rate p * year_frac p) (points c))"
    and u: "0 < u" and ut: "u < t"
  shows "\<exists>a b. discount_factor c u = Inr a \<and> discount_factor c t = Inr b \<and> b < a"
proof -
  let ?xs = "year_fracs c" and ?ys = "pillar_ln_dfs c" and ?n = "length (points c)"
  let ?ex = "0 # ?xs" and ?ey = "0 # ?ys"
  let ?G = "\<lambda>m x. interp_linear x (?ex ! m) (?ex ! Suc m) (?ey ! m) (?ey ! Suc m)"
  define ku where "ku = bisect_left ?xs u"
  define kt where "kt = bisect_left ?xs t"
  define mu where "mu = min ku (?n - 1)"
  define mt where "mt = min kt (?n - 1)"
  have t: "0 < t" using u ut by simp
  have len: "length ?xs = ?n" "length ?ys = ?n" by (rule curve_lengths)+
  have n1: "1 \<le> ?n" using ne by (cases "points c") simp_all
  have sx: "sorted_wrt (<) ?ex"
    using s pos by (auto simp: year_fracs_def)
  have "sorted_wrt (\<lambda>p q. rate p * year_frac p < rate q * year_frac q) (points c)"
    using prod by (simp add: sorted_wrt_map)
  then have "sorted_wrt (\<lambda>p q. - rate p * year_frac p > - rate q * year_frac q) (points c)"
    by (rule sorted_wrt_mono_rel [rotated]) simp
  then have "sorted_wrt (>) ?ys"
    by (simp add: pillar_ln_dfs_def sorted_wrt_map)
  moreover have "\<forall>y \<in> set ?ys. y < 0"
    using pos by (auto simp: pillar_ln_dfs_def mult_pos_pos)
  ultimately have sy: "sorted_wrt (>) ?ey" by simp
  note bu = bisect_left_spec [OF s, where x = u, folded ku_def]
    and bt = bisect_left_spec [OF s, where x = t, folded kt_def]
  have k: "ku \<le> kt" using bisect_left_mono [OF s, of u t] ut by (simp add: ku_def kt_def)
  have m: "mu \<le> mt" using k unfolding mu_def mt_def by linarith
  have mtk: "mt \<le> kt" and mtn: "mt < ?n" using n1 unfolding mt_def by linarith+
  have muk: "ku = mu" if "mu < ?n - 1" using that unfolding mu_def by linarith
  have seg: "?ex ! j < ?ex ! Suc j \<and> ?ey ! Suc j < ?ey ! j" if "j \<le> mt" for j
  proof -
    have "j < ?n" using that mtn by linarith
    then have "Suc j < length ?ex" "Suc j < length ?ey" using len by simp_all
    then show ?thesis
      using sorted_wrt_nth_less [OF sx, where i = j and j = "Suc j"]
        sorted_wrt_nth_less [OF sy, where i = j and j = "Suc j"] by simp
  qed
  have left: "?ex ! mt < t"
  proof (cases mt)
    case 0
    then show ?thesis using t by simp
  next
    case (Suc j)
    then have "j < kt" using mtk by simp
    then have "?xs ! j < t" by (rule bt(2))
    then show ?thesis using Suc by simp
  qed
  have Gt: "?G mt t < ?ey ! mt"
  proof -
    have "?G mt t < ?G mt (?ex ! mt)"
      using seg [of mt] left by (intro interp_linear_strict_antimono) simp_all
    also have "\<dots> = ?ey ! mt"
      using seg [of mt] by (intro interp_linear_left) simp
    finally show ?thesis .
  qed
  have less: "?G mt t < ?G mu u"
  proof (cases "mu = mt")
    case True
    show ?thesis
      unfolding True using seg [of mt] ut by (intro interp_linear_strict_antimono) simp_all
  next
    case False
    then have lt: "mu < mt" using m by simp
    then have "mu < ?n - 1" using mtn by linarith
    then have ku: "ku = mu" "ku < ?n" using muk by simp_all
    have "u \<le> ?xs ! ku" using bu(3) [of ku] ku(2) len by simp
    then have right: "u \<le> ?ex ! Suc mu" using ku(1) by simp
    have "?ey ! mt \<le> ?ey ! Suc mu"
    proof (cases "Suc mu = mt")
      case True
      then show ?thesis by simp
    next
      case False
      then have "Suc mu < mt" using lt by simp
      moreover have "mt < length ?ey" using mtn len by simp
      ultimately show ?thesis
        using sorted_wrt_nth_less [OF sy, where i = "Suc mu" and j = mt] by simp
    qed
    also have "?ey ! Suc mu \<le> ?G mu u"
    proof (cases "u = ?ex ! Suc mu")
      case True
      have "?G mu (?ex ! Suc mu) = ?ey ! Suc mu" by (rule interp_linear_right)
      then show ?thesis using True by simp
    next
      case False
      then have "u < ?ex ! Suc mu" using right by simp
      then have "?G mu (?ex ! Suc mu) < ?G mu u"
        using seg [of mu] m by (intro interp_linear_strict_antimono) simp_all
      then show ?thesis by (simp add: interp_linear_right)
    qed
    finally show ?thesis using Gt by simp
  qed
  have "discount_factor c u = Inr (exp (?G mu u))"
    unfolding mu_def ku_def by (rule discount_factor_segment [OF s ne u])
  moreover have "discount_factor c t = Inr (exp (?G mt t))"
    unfolding mt_def kt_def by (rule discount_factor_segment [OF s ne t])
  moreover have "exp (?G mt t) < exp (?G mu u)" using less by simp
  ultimately show ?thesis by blast
qed

lemma ForwardCurve_new_set:
  assumes "ForwardCurve_new nm pts = Inr c"
  shows "set (points c) = set pts"
  using ForwardCurve_new_Inr(1) [OF assms] by simp

lemma nth_year_fracs: "i < length (points c) \<Longrightarrow> year_fracs c ! i = year_frac (points c ! i)"
  by (simp add: year_fracs_def)

lemma nth_pillar_ln_dfs:
  "i < length (points c) \<Longrightarrow> pillar_ln_dfs c ! i = - rate (points c ! i) * year_frac (points c ! i)"
  by (simp add: pillar_ln_dfs_def)

lemma discount_factor_two_pillars:
  assumes "x0 < x1" "0 < t"
  shows "x0 < t \<Longrightarrow> t \<le> x1 \<Longrightarrow>
         discount_factor \<lparr>index_name = nm,
             points = [\<lparr>year_frac = x0, rate = r0, tenor = n0, tenor_date = d0\<rparr>,
                       \<lparr>year_frac = x1, rate = r1, tenor = n1, tenor_date = d1\<rparr>]\<rparr> t
         = Inr (exp (interp_linear t x0 x1 (- r0 * x0) (- r1 * x1)))"
    and "x1 \<le> t \<Longrightarrow>
         discount_factor \<lparr>index_name = nm,
             points = [\<lparr>year_frac = x0, rate = r0, tenor = n0, tenor_date = d0\<rparr>,
                       \<lparr>year_frac = x1, rate = r1, tenor = n1, tenor_date = d1\<rparr>]\<rparr> t
         = Inr (exp (interp_linear t x0 x1 (- r0 * x0) (- r1 * x1)))"
    and "t \<le> x0 \<Longrightarrow>
         discount_factor \<lparr>index_name = nm,
             points = [\<lparr>year_frac = x0, rate = r0, tenor = n0, tenor_date = d0\<rparr>,
                       \<lparr>year_frac = x1, rate = r1, tenor = n1, tenor_date = d1\<rparr>]\<rparr> t
         = Inr (exp (interp_linear t 0 x0 0 (- r0 * x0)))"
proof -
  let ?c = "\<lparr>index_name = nm,
             points = [\<lparr>year_frac = x0, rate = r0, tenor = n0, tenor_date = d0\<rparr>,
                       \<lparr>year_frac = x1, rate = r1, tenor = n1, tenor_date = d1\<rparr>]\<rparr>"
  have s: "sorted_wrt (<) (year_fracs ?c)" using assms(1) by (simp add: year_fracs_def)
  show "discount_factor ?c t = Inr (exp (interp_linear t x0 x1 (- r0 * x0) (- r1 * x1)))"
    if "x0 < t" "t \<le> x1"
    using discount_factor_between [OF s assms(2), of 0] that
    by (simp add: year_fracs_def pillar_ln_dfs_def)
  show "discount_factor ?c t = Inr (exp (interp_linear t x0 x1 (- r0 * x0) (- r1 * x1)))"
    if "x1 \<le> t"
    using discount_factor_last [of t ?c] assms that
    by (simp add: year_fracs_def pillar_ln_dfs_def)
  show "discount_factor ?c t = Inr (exp (interp_linear t 0 x0 0 (- r0 * x0)))" if "t \<le> x0"
    using discount_factor_first [of t ?c] assms that
    by (simp add: year_fracs_def pillar_ln_dfs_def)
qed

lemma ForwardCurve_new_two_pillars:
  assumes "year_frac p < year_frac q"
  shows "ForwardCurve_new nm [p, q] = Inr \<lparr>index_name = nm, points = [p, q]\<rparr>"
  using assms by (simp add: ForwardCurve_new_def)


subsection \<open>Interpolation between pillars\<close>

text \<open>
  Claim C1. For a curve built by \<open>ForwardCurve_new\<close> from points with year fractions that
  are not negative (the data model of the curve point), and \<open>t\<close> strictly between two
  adjacent pillars, \<open>discount_factor\<close> is the exponential of the linear interpolation in
  ln(DF) between the two pillars, where the ln(DF) of a pillar is minus its rate times its
  year fraction. For the pillars (1, 0.02) and (2, 0.03) the discount factor at 1.5 is
  exp of the interpolation at 1.5 between (1, -0.02) and (2, -0.06), which is exp(-0.04).
\<close>

theorem discount_factor_between_pillars:
  "(ForwardCurve_new nm pts = Inr c \<and> (\<forall>p \<in> set pts. 0 \<le> year_frac p) \<and>
    Suc i < length (points c) \<and>
    year_frac (points c ! i) < t \<and> t < year_frac (points c ! Suc i) \<longrightarrow>
    discount_factor c t
      = Inr (exp (- rate (points c ! i) * year_frac (points c ! i)
                  + (t - year_frac (points c ! i))
                    / (year_frac (points c ! Suc i) - year_frac (points c ! i))
                    * (- rate (points c ! Suc i) * year_frac (points c ! Suc i)
                       - - rate (points c ! i) * year_frac (points c ! i))))) \<and>
   discount_factor
     \<lparr>index_name = ''EUR'',
      points = [\<lparr>year_frac = 1, rate = 2 / 100, tenor = ''1Y'',
                 tenor_date = \<lparr>year = 2025, month = 1, day = 1\<rparr>\<rparr>,
                \<lparr>year_frac = 2, rate = 3 / 100, tenor = ''2Y'',
                 tenor_date = \<lparr>year = 2026, month = 1, day = 1\<rparr>\<rparr>]\<rparr> (3 / 2)
     = Inr (exp (interp_linear (3 / 2) 1 2 (- (2 / 100)) (- (6 / 100)))) \<and>
   interp_linear (3 / 2) 1 2 (- (2 / 100)) (- (6 / 100)) = - (4 / 100)"
proof (intro conjI impI)
  assume a: "ForwardCurve_new nm pts = Inr c \<and> (\<forall>p \<in> set pts. 0 \<le> year_frac p) \<and>
    Suc i < length (points c) \<and>
    year_frac (points c ! i) < t \<and> t < year_frac (points c ! Suc i)"
  then have new: "ForwardCurve_new nm pts = Inr c" and i: "Suc i < length (points c)"
    and lo: "year_frac (points c ! i) < t" and hi: "t < year_frac (points c ! Suc i)" by simp_all
  have "points c ! i \<in> set pts"
    using ForwardCurve_new_set [OF new] i by (metis Suc_lessD nth_mem)
  then have "0 \<le> year_frac (points c ! i)" using a by blast
  then have t: "0 < t" using lo by simp
  have ne: "year_fracs c ! i \<noteq> year_fracs c ! Suc i"
    using lo hi i by (simp add: nth_year_fracs)
  have "discount_factor c t
         = Inr (exp (interp_linear t (year_fracs c ! i) (year_fracs c ! Suc i)
                       (pillar_ln_dfs c ! i) (pillar_ln_dfs c ! Suc i)))"
    using discount_factor_between [OF ForwardCurve_new_Inr(4) [OF new] t i] lo hi i
    by (simp add: nth_year_fracs)
  then show "discount_factor c t
      = Inr (exp (- rate (points c ! i) * year_frac (points c ! i)
                  + (t - year_frac (points c ! i))
                    / (year_frac (points c ! Suc i) - year_frac (points c ! i))
                    * (- rate (points c ! Suc i) * year_frac (points c ! Suc i)
                       - - rate (points c ! i) * year_frac (points c ! i))))"
    unfolding interp_linear_formula [OF ne] using i
    by (simp add: nth_year_fracs nth_pillar_ln_dfs)
next
  show "discount_factor
     \<lparr>index_name = ''EUR'',
      points = [\<lparr>year_frac = 1, rate = 2 / 100, tenor = ''1Y'',
                 tenor_date = \<lparr>year = 2025, month = 1, day = 1\<rparr>\<rparr>,
                \<lparr>year_frac = 2, rate = 3 / 100, tenor = ''2Y'',
                 tenor_date = \<lparr>year = 2026, month = 1, day = 1\<rparr>\<rparr>]\<rparr> (3 / 2)
     = Inr (exp (interp_linear (3 / 2) 1 2 (- (2 / 100)) (- (6 / 100))))"
    using discount_factor_two_pillars(1) [of 1 2 "3 / 2" "''EUR''" "2 / 100" "''1Y''" _ "3 / 100"]
    by simp
next
  show "interp_linear (3 / 2) 1 2 (- (2 / 100)) (- (6 / 100)) = - (4 / 100)"
    by (simp add: interp_linear_def)
qed

theorem discount_factor_between_pillars_witness:
  "ForwardCurve_new ''EUR''
     [\<lparr>year_frac = 1, rate = 2 / 100, tenor = ''1Y'',
       tenor_date = \<lparr>year = 2025, month = 1, day = 1\<rparr>\<rparr>,
      \<lparr>year_frac = 2, rate = 3 / 100, tenor = ''2Y'',
       tenor_date = \<lparr>year = 2026, month = 1, day = 1\<rparr>\<rparr>]
   = Inr \<lparr>index_name = ''EUR'',
          points = [\<lparr>year_frac = 1, rate = 2 / 100, tenor = ''1Y'',
                     tenor_date = \<lparr>year = 2025, month = 1, day = 1\<rparr>\<rparr>,
                    \<lparr>year_frac = 2, rate = 3 / 100, tenor = ''2Y'',
                     tenor_date = \<lparr>year = 2026, month = 1, day = 1\<rparr>\<rparr>]\<rparr> \<and>
   discount_factor
     \<lparr>index_name = ''EUR'',
      points = [\<lparr>year_frac = 1, rate = 2 / 100, tenor = ''1Y'',
                 tenor_date = \<lparr>year = 2025, month = 1, day = 1\<rparr>\<rparr>,
                \<lparr>year_frac = 2, rate = 3 / 100, tenor = ''2Y'',
                 tenor_date = \<lparr>year = 2026, month = 1, day = 1\<rparr>\<rparr>]\<rparr> (5 / 4)
     = Inr (exp (- (3 / 100)))"
proof -
  let ?p = "\<lparr>year_frac = 1, rate = 2 / 100, tenor = ''1Y'',
       tenor_date = \<lparr>year = 2025, month = 1, day = 1\<rparr>\<rparr>"
  let ?q = "\<lparr>year_frac = 2, rate = 3 / 100, tenor = ''2Y'',
       tenor_date = \<lparr>year = 2026, month = 1, day = 1\<rparr>\<rparr>"
  let ?c = "\<lparr>index_name = ''EUR'', points = [?p, ?q]\<rparr>"
  have new: "ForwardCurve_new ''EUR'' [?p, ?q] = Inr ?c"
    by (simp add: ForwardCurve_new_def)
  have h: "ForwardCurve_new ''EUR'' [?p, ?q] = Inr ?c \<and> (\<forall>p \<in> set [?p, ?q]. 0 \<le> year_frac p) \<and>
    Suc 0 < length (points ?c) \<and>
    year_frac (points ?c ! 0) < 5 / 4 \<and> (5 / 4 :: real) < year_frac (points ?c ! Suc 0)"
    using new by simp
  from discount_factor_between_pillars [of "''EUR''" "[?p, ?q]" ?c 0 "5 / 4"] h
  have "discount_factor ?c (5 / 4)
      = Inr (exp (- rate (points ?c ! 0) * year_frac (points ?c ! 0)
                  + (5 / 4 - year_frac (points ?c ! 0))
                    / (year_frac (points ?c ! Suc 0) - year_frac (points ?c ! 0))
                    * (- rate (points ?c ! Suc 0) * year_frac (points ?c ! Suc 0)
                       - - rate (points ?c ! 0) * year_frac (points ?c ! 0))))"
    by blast
  then have "discount_factor ?c (5 / 4) = Inr (exp (- (3 / 100)))" by simp
  with new show ?thesis by simp
qed

subsection \<open>Extrapolation beyond the last pillar\<close>

text \<open>
  Claim C2. For a curve with at least two pillars, built by \<open>ForwardCurve_new\<close> from points
  with year fractions that are not negative, and \<open>t\<close> at or beyond the last pillar,
  \<open>discount_factor\<close> is the exponential of the ln(DF) of the last pillar continued along the
  slope of the segment between the last two pillars. For the pillars (1, 0.02) and
  (2, 0.03) the value at 3 is exp(-0.10), not the flat-zero-rate value exp(-0.03 * 3).
\<close>

theorem discount_factor_beyond_last_pillar:
  "(ForwardCurve_new nm pts = Inr c \<and> (\<forall>p \<in> set pts. 0 \<le> year_frac p) \<and>
    2 \<le> length (points c) \<and> year_frac (last (points c)) \<le> t \<longrightarrow>
    discount_factor c t
      = Inr (exp (- rate (last (points c)) * year_frac (last (points c))
                  + (t - year_frac (last (points c)))
                    * ((- rate (last (points c)) * year_frac (last (points c))
                        - - rate (points c ! (length (points c) - 2))
                            * year_frac (points c ! (length (points c) - 2)))
                       / (year_frac (last (points c))
                          - year_frac (points c ! (length (points c) - 2))))))) \<and>
   discount_factor
     \<lparr>index_name = ''EUR'',
      points = [\<lparr>year_frac = 1, rate = 2 / 100, tenor = ''1Y'',
                 tenor_date = \<lparr>year = 2025, month = 1, day = 1\<rparr>\<rparr>,
                \<lparr>year_frac = 2, rate = 3 / 100, tenor = ''2Y'',
                 tenor_date = \<lparr>year = 2026, month = 1, day = 1\<rparr>\<rparr>]\<rparr> 3
     = Inr (exp (- (10 / 100))) \<and>
   exp (- (10 / 100)) \<noteq> exp (- (3 / 100) * (3 :: real))"
proof (intro conjI impI)
  assume a: "ForwardCurve_new nm pts = Inr c \<and> (\<forall>p \<in> set pts. 0 \<le> year_frac p) \<and>
    2 \<le> length (points c) \<and> year_frac (last (points c)) \<le> t"
  let ?n = "length (points c)"
  from a have new: "ForwardCurve_new nm pts = Inr c" and n2: "2 \<le> ?n"
    and ge: "year_frac (last (points c)) \<le> t" by simp_all
  note s = ForwardCurve_new_Inr(4) [OF new]
  have len: "length (year_fracs c) = ?n" by (rule curve_lengths)
  have l: "last (points c) = points c ! (?n - 1)"
    using ForwardCurve_new_Inr(5) [OF new] by (rule last_conv_nth)
  have d: "?n - 2 < ?n" using n2 by linarith
  have "points c ! (?n - 2) \<in> set pts"
    using ForwardCurve_new_set [OF new] nth_mem [OF d] by simp
  then have p0: "0 \<le> year_fracs c ! (?n - 2)" using a d by (simp add: nth_year_fracs)
  have lt: "year_fracs c ! (?n - 2) < year_fracs c ! (?n - 1)"
    using sorted_wrt_nth_less [OF s, where i = "?n - 2" and j = "?n - 1"] n2 len by simp
  have xl: "year_fracs c ! (?n - 1) \<le> t" using ge l n2 by (simp add: nth_year_fracs)
  have t: "0 < t" using p0 lt xl by simp
  have "year_fracs c ! 0 \<le> year_fracs c ! (?n - 2)"
  proof (cases "?n - 2 = 0")
    case False
    then show ?thesis
      using sorted_wrt_nth_less [OF s, where i = 0 and j = "?n - 2"] d len by simp
  qed simp
  then have nf: "\<not> t \<le> year_fracs c ! 0" using lt xl by simp
  have ne: "year_fracs c ! (?n - 2) \<noteq> year_fracs c ! (?n - 1)" using lt by simp
  have alg: "yp + (t - xp) / (xl - xp) * (yl - yp) = yl + (t - xl) * ((yl - yp) / (xl - xp))"
    if "xp \<noteq> xl" for xp xl yp yl :: real
    using that by (simp add: field_simps)
  have "discount_factor c t
         = Inr (exp (interp_linear t (year_fracs c ! (?n - 2)) (year_fracs c ! (?n - 1))
                       (pillar_ln_dfs c ! (?n - 2)) (pillar_ln_dfs c ! (?n - 1))))"
    by (rule discount_factor_last [OF t n2 nf xl])
  also have "interp_linear t (year_fracs c ! (?n - 2)) (year_fracs c ! (?n - 1))
                       (pillar_ln_dfs c ! (?n - 2)) (pillar_ln_dfs c ! (?n - 1))
      = pillar_ln_dfs c ! (?n - 1) + (t - year_fracs c ! (?n - 1))
          * ((pillar_ln_dfs c ! (?n - 1) - pillar_ln_dfs c ! (?n - 2))
             / (year_fracs c ! (?n - 1) - year_fracs c ! (?n - 2)))"
    unfolding interp_linear_formula [OF ne] by (rule alg [OF ne])
  finally show "discount_factor c t
      = Inr (exp (- rate (last (points c)) * year_frac (last (points c))
                  + (t - year_frac (last (points c)))
                    * ((- rate (last (points c)) * year_frac (last (points c))
                        - - rate (points c ! (length (points c) - 2))
                            * year_frac (points c ! (length (points c) - 2)))
                       / (year_frac (last (points c))
                          - year_frac (points c ! (length (points c) - 2))))))"
    unfolding l using n2 by (simp add: nth_year_fracs nth_pillar_ln_dfs)
next
  show "discount_factor
     \<lparr>index_name = ''EUR'',
      points = [\<lparr>year_frac = 1, rate = 2 / 100, tenor = ''1Y'',
                 tenor_date = \<lparr>year = 2025, month = 1, day = 1\<rparr>\<rparr>,
                \<lparr>year_frac = 2, rate = 3 / 100, tenor = ''2Y'',
                 tenor_date = \<lparr>year = 2026, month = 1, day = 1\<rparr>\<rparr>]\<rparr> 3
     = Inr (exp (- (10 / 100)))"
    using discount_factor_two_pillars(2) [of 1 2 3 "''EUR''" "2 / 100" "''1Y''" _ "3 / 100"]
    by (simp add: interp_linear_def)
next
  show "exp (- (10 / 100)) \<noteq> exp (- (3 / 100) * (3 :: real))" by simp
qed

theorem discount_factor_beyond_last_pillar_witness:
  "ForwardCurve_new ''EUR''
     [\<lparr>year_frac = 1, rate = 2 / 100, tenor = ''1Y'',
       tenor_date = \<lparr>year = 2025, month = 1, day = 1\<rparr>\<rparr>,
      \<lparr>year_frac = 2, rate = 3 / 100, tenor = ''2Y'',
       tenor_date = \<lparr>year = 2026, month = 1, day = 1\<rparr>\<rparr>]
   = Inr \<lparr>index_name = ''EUR'',
          points = [\<lparr>year_frac = 1, rate = 2 / 100, tenor = ''1Y'',
                     tenor_date = \<lparr>year = 2025, month = 1, day = 1\<rparr>\<rparr>,
                    \<lparr>year_frac = 2, rate = 3 / 100, tenor = ''2Y'',
                     tenor_date = \<lparr>year = 2026, month = 1, day = 1\<rparr>\<rparr>]\<rparr> \<and>
   discount_factor
     \<lparr>index_name = ''EUR'',
      points = [\<lparr>year_frac = 1, rate = 2 / 100, tenor = ''1Y'',
                 tenor_date = \<lparr>year = 2025, month = 1, day = 1\<rparr>\<rparr>,
                \<lparr>year_frac = 2, rate = 3 / 100, tenor = ''2Y'',
                 tenor_date = \<lparr>year = 2026, month = 1, day = 1\<rparr>\<rparr>]\<rparr> 4
     = Inr (exp (- (14 / 100)))"
proof -
  let ?p = "\<lparr>year_frac = 1, rate = 2 / 100, tenor = ''1Y'',
       tenor_date = \<lparr>year = 2025, month = 1, day = 1\<rparr>\<rparr>"
  let ?q = "\<lparr>year_frac = 2, rate = 3 / 100, tenor = ''2Y'',
       tenor_date = \<lparr>year = 2026, month = 1, day = 1\<rparr>\<rparr>"
  let ?c = "\<lparr>index_name = ''EUR'', points = [?p, ?q]\<rparr>"
  have new: "ForwardCurve_new ''EUR'' [?p, ?q] = Inr ?c"
    by (simp add: ForwardCurve_new_def)
  have h: "ForwardCurve_new ''EUR'' [?p, ?q] = Inr ?c \<and> (\<forall>p \<in> set [?p, ?q]. 0 \<le> year_frac p) \<and>
    2 \<le> length (points ?c) \<and> year_frac (last (points ?c)) \<le> 4"
    using new by simp
  from discount_factor_beyond_last_pillar [of "''EUR''" "[?p, ?q]" ?c 4] h
  have "discount_factor ?c 4
      = Inr (exp (- rate (last (points ?c)) * year_frac (last (points ?c))
                  + (4 - year_frac (last (points ?c)))
                    * ((- rate (last (points ?c)) * year_frac (last (points ?c))
                        - - rate (points ?c ! (length (points ?c) - 2))
                            * year_frac (points ?c ! (length (points ?c) - 2)))
                       / (year_frac (last (points ?c))
                          - year_frac (points ?c ! (length (points ?c) - 2))))))"
    by blast
  then have "discount_factor ?c 4 = Inr (exp (- (14 / 100)))" by simp
  with new show ?thesis by simp
qed


subsection \<open>Monotonicity\<close>

text \<open>
  Claim C6, as stated: the discount factor would be strictly decreasing over \<open>t > 0\<close>
  whenever all pillar rates are positive. With the pillars (1, 0.10) and (2, 0.03) both
  rates are positive and the discount factor at 2 is above the discount factor at 1.
\<close>

theorem discount_factor_rises_between_pillars:
  "ForwardCurve_new ''EUR''
     [\<lparr>year_frac = 1, rate = 10 / 100, tenor = ''1Y'',
       tenor_date = \<lparr>year = 2025, month = 1, day = 1\<rparr>\<rparr>,
      \<lparr>year_frac = 2, rate = 3 / 100, tenor = ''2Y'',
       tenor_date = \<lparr>year = 2026, month = 1, day = 1\<rparr>\<rparr>]
   = Inr \<lparr>index_name = ''EUR'',
          points = [\<lparr>year_frac = 1, rate = 10 / 100, tenor = ''1Y'',
                     tenor_date = \<lparr>year = 2025, month = 1, day = 1\<rparr>\<rparr>,
                    \<lparr>year_frac = 2, rate = 3 / 100, tenor = ''2Y'',
                     tenor_date = \<lparr>year = 2026, month = 1, day = 1\<rparr>\<rparr>]\<rparr> \<and>
   discount_factor
     \<lparr>index_name = ''EUR'',
      points = [\<lparr>year_frac = 1, rate = 10 / 100, tenor = ''1Y'',
                 tenor_date = \<lparr>year = 2025, month = 1, day = 1\<rparr>\<rparr>,
                \<lparr>year_frac = 2, rate = 3 / 100, tenor = ''2Y'',
                 tenor_date = \<lparr>year = 2026, month = 1, day = 1\<rparr>\<rparr>]\<rparr> 1
     = Inr (exp (- (10 / 100))) \<and>
   discount_factor
     \<lparr>index_name = ''EUR'',
      points = [\<lparr>year_frac = 1, rate = 10 / 100, tenor = ''1Y'',
                 tenor_date = \<lparr>year = 2025, month = 1, day = 1\<rparr>\<rparr>,
                \<lparr>year_frac = 2, rate = 3 / 100, tenor = ''2Y'',
                 tenor_date = \<lparr>year = 2026, month = 1, day = 1\<rparr>\<rparr>]\<rparr> 2
     = Inr (exp (- (6 / 100))) \<and>
   exp (- (10 / 100)) < exp (- (6 / 100) :: real)"
proof (intro conjI)
  show "exp (- (10 / 100)) < exp (- (6 / 100) :: real)" by simp
qed (use discount_factor_two_pillars(2) [of 1 2 2 "''EUR''" "10 / 100" "''1Y''" _ "3 / 100"]
       discount_factor_two_pillars(3) [of 1 2 1 "''EUR''" "10 / 100" "''1Y''" _ "3 / 100"]
     in \<open>simp_all add: ForwardCurve_new_def interp_linear_def\<close>)


text \<open>
  Claim C6, amended. The discount factor of any curve is 1 at every \<open>t \<le> 0\<close>. For a curve
  built by \<open>ForwardCurve_new\<close> whose pillars have positive year fractions and positive
  rates and whose products of rate and year fraction increase strictly along the
  pillars, the discount factor is strictly decreasing over \<open>t > 0\<close>.
\<close>

theorem discount_factor_strictly_decreasing:
  "(t \<le> 0 \<longrightarrow> discount_factor c t = Inr 1) \<and>
   (ForwardCurve_new nm pts = Inr c \<and>
    (\<forall>p \<in> set pts. 0 < year_frac p \<and> 0 < rate p) \<and>
    sorted_wrt (<) (map (\<lambda>p. rate p * year_frac p) (points c)) \<and>
    0 < u \<and> u < v \<longrightarrow>
    (\<exists>a b. discount_factor c u = Inr a \<and> discount_factor c v = Inr b \<and> b < a))"
proof (intro conjI impI)
  assume "t \<le> 0"
  then show "discount_factor c t = Inr 1" by (rule discount_factor_nonpos)
next
  assume a: "ForwardCurve_new nm pts = Inr c \<and>
    (\<forall>p \<in> set pts. 0 < year_frac p \<and> 0 < rate p) \<and>
    sorted_wrt (<) (map (\<lambda>p. rate p * year_frac p) (points c)) \<and>
    0 < u \<and> u < v"
  then have new: "ForwardCurve_new nm pts = Inr c" by simp
  have pos: "\<forall>p \<in> set (points c). 0 < year_frac p \<and> 0 < rate p"
    using a ForwardCurve_new_set [OF new] by simp
  show "\<exists>a b. discount_factor c u = Inr a \<and> discount_factor c v = Inr b \<and> b < a"
    using discount_factor_decreasing
      [OF ForwardCurve_new_Inr(4) [OF new] ForwardCurve_new_Inr(5) [OF new] pos, of u v] a
    by simp
qed

theorem discount_factor_strictly_decreasing_witness:
  "discount_factor
     \<lparr>index_name = ''EUR'',
      points = [\<lparr>year_frac = 1, rate = 2 / 100, tenor = ''1Y'',
                 tenor_date = \<lparr>year = 2025, month = 1, day = 1\<rparr>\<rparr>,
                \<lparr>year_frac = 2, rate = 3 / 100, tenor = ''2Y'',
                 tenor_date = \<lparr>year = 2026, month = 1, day = 1\<rparr>\<rparr>]\<rparr> 0 = Inr 1 \<and>
   (\<exists>a b. discount_factor
     \<lparr>index_name = ''EUR'',
      points = [\<lparr>year_frac = 1, rate = 2 / 100, tenor = ''1Y'',
                 tenor_date = \<lparr>year = 2025, month = 1, day = 1\<rparr>\<rparr>,
                \<lparr>year_frac = 2, rate = 3 / 100, tenor = ''2Y'',
                 tenor_date = \<lparr>year = 2026, month = 1, day = 1\<rparr>\<rparr>]\<rparr> 1 = Inr a \<and>
     discount_factor
     \<lparr>index_name = ''EUR'',
      points = [\<lparr>year_frac = 1, rate = 2 / 100, tenor = ''1Y'',
                 tenor_date = \<lparr>year = 2025, month = 1, day = 1\<rparr>\<rparr>,
                \<lparr>year_frac = 2, rate = 3 / 100, tenor = ''2Y'',
                 tenor_date = \<lparr>year = 2026, month = 1, day = 1\<rparr>\<rparr>]\<rparr> 2 = Inr b \<and> b < a)"
proof -
  let ?p = "\<lparr>year_frac = 1, rate = 2 / 100, tenor = ''1Y'',
       tenor_date = \<lparr>year = 2025, month = 1, day = 1\<rparr>\<rparr>"
  let ?q = "\<lparr>year_frac = 2, rate = 3 / 100, tenor = ''2Y'',
       tenor_date = \<lparr>year = 2026, month = 1, day = 1\<rparr>\<rparr>"
  let ?c = "\<lparr>index_name = ''EUR'', points = [?p, ?q]\<rparr>"
  have new: "ForwardCurve_new ''EUR'' [?p, ?q] = Inr ?c"
    by (simp add: ForwardCurve_new_def)
  have h: "ForwardCurve_new ''EUR'' [?p, ?q] = Inr ?c \<and>
    (\<forall>p \<in> set [?p, ?q]. 0 < year_frac p \<and> 0 < rate p) \<and>
    sorted_wrt (<) (map (\<lambda>p. rate p * year_frac p) (points ?c)) \<and>
    (0 :: real) < 1 \<and> (1 :: real) < 2"
    using new by simp
  have z: "(0 :: real) \<le> 0" by simp
  from discount_factor_strictly_decreasing [of 0 ?c "''EUR''" "[?p, ?q]" 1 2] h z
  show ?thesis by blast
qed

section \<open>Properties of the scenario shocks\<close>

subsection \<open>The heap and the rebuilding of curves\<close>

lemma bind_heap_simps:
  "bind_heap (Inr v, h) f = f v h" "bind_heap (Inl e, h) f = (Inl e, h)"
  by (simp_all add: bind_heap_def)

lemma get_append:
  "a < length h \<Longrightarrow> get_DataFrame (h @ ys) a = get_DataFrame h a"
  "a < length h \<Longrightarrow> get_ForwardCurve (h @ ys) a = get_ForwardCurve h a"
  "a < length h \<Longrightarrow> get_ForwardCurveSet (h @ ys) a = get_ForwardCurveSet h a"
  by (simp_all add: get_DataFrame_def get_ForwardCurve_def get_ForwardCurveSet_def nth_append)

lemma get_Inr_bound:
  "get_DataFrame h a = Inr df \<Longrightarrow> a < length h"
  "get_ForwardCurve h a = Inr c \<Longrightarrow> a < length h"
  "get_ForwardCurveSet h a = Inr s \<Longrightarrow> a < length h"
  by (simp_all add: get_DataFrame_def get_ForwardCurve_def get_ForwardCurveSet_def split: if_splits)

lemma get_new:
  "get_DataFrame (h @ DataFrame_obj df # ys) (length h) = Inr df"
  "get_ForwardCurveSet (h @ ForwardCurveSet_obj s # ys) (length h) = Inr s"
  by (simp_all add: get_DataFrame_def get_ForwardCurveSet_def)

text \<open>A curve can be built exactly from a non-empty list of points without a repeated year fraction.\<close>

lemma strict_sorted_sort_key:
  "sorted_wrt (<) (map f (sort_key f xs)) \<longleftrightarrow> distinct (map f xs)" for f :: "'a \<Rightarrow> real"
proof -
  have "sorted_wrt (<) (map f (sort_key f xs))
        \<longleftrightarrow> sorted (map f (sort_key f xs)) \<and> distinct (map f (sort_key f xs))"
    by (simp add: strict_sorted_iff)
  also have "\<dots> \<longleftrightarrow> distinct (map f (sort_key f xs))" by simp
  also have "\<dots> \<longleftrightarrow> distinct (map f xs)" by (simp add: distinct_map)
  finally show ?thesis .
qed

lemma ForwardCurve_new_ok_iff:
  "(\<exists>c. ForwardCurve_new nm pts = Inr c) \<longleftrightarrow> pts \<noteq> [] \<and> distinct (map year_frac pts)"
  by (auto simp: ForwardCurve_new_def Let_def validate_increasing_iff strict_sorted_sort_key)

lemma rows_shift_FwdRate:
  "columns (shift_FwdRate sel sh df) = columns df"
  "map IndexName (rows (shift_FwdRate sel sh df)) = map IndexName (rows df)"
  "length (rows (shift_FwdRate sel sh df)) = length (rows df)"
  by (simp_all add: shift_FwdRate_def)

lemma filter_rows_shift_FwdRate:
  "filter (\<lambda>r. IndexName r = ix) (rows (shift_FwdRate sel sh df))
   = map (\<lambda>r. if IndexName r \<in> sel then r\<lparr>FwdRate := map_option (\<lambda>v. v + sh) (FwdRate r)\<rparr> else r)
       (filter (\<lambda>r. IndexName r = ix) (rows df))"
  by (simp add: shift_FwdRate_def filter_map comp_def if_distrib [of IndexName] cong: if_cong)

lemma curve_from_long_df_ok_iff:
  "(\<exists>c. curve_from_long_df df ix = Inr c) \<longleftrightarrow>
     set REQUIRED_COLUMNS \<subseteq> set (columns df) \<and>
     filter (\<lambda>r. IndexName r = ix) (rows df) \<noteq> [] \<and>
     (\<forall>r \<in> set (filter (\<lambda>r. IndexName r = ix) (rows df)). YearFrac r \<noteq> None \<and> FwdRate r \<noteq> None) \<and>
     distinct (map YearFrac (filter (\<lambda>r. IndexName r = ix) (rows df)))"
proof -
  let ?sub = "filter (\<lambda>r. IndexName r = ix) (rows df)"
  let ?pts = "map (\<lambda>r. \<lparr>year_frac = the (YearFrac r), rate = the (FwdRate r),
                                 tenor = upper (strip (Tenor r)),
                                 tenor_date = TenorDate r\<rparr>) ?sub"
  have cols: "filter (\<lambda>c. c \<notin> set (columns df)) REQUIRED_COLUMNS = []
              \<longleftrightarrow> set REQUIRED_COLUMNS \<subseteq> set (columns df)"
    by (auto simp: filter_empty_conv)
  have d: "distinct (map year_frac ?pts) \<longleftrightarrow> distinct (map YearFrac ?sub)"
    if "\<forall>r \<in> set ?sub. YearFrac r \<noteq> None"
  proof -
    have e: "map year_frac ?pts = map the (map YearFrac ?sub)" by (simp add: comp_def)
    have "inj_on the (set (map YearFrac ?sub))"
    proof (rule inj_onI)
      fix a b assume "a \<in> set (map YearFrac ?sub)" "b \<in> set (map YearFrac ?sub)" "the a = the b"
      moreover from this that have "a \<noteq> None" "b \<noteq> None" by auto
      ultimately show "a = b" by auto
    qed
    then have "distinct (map the (map YearFrac ?sub)) \<longleftrightarrow> distinct (map YearFrac ?sub)"
      using distinct_map [of the "map YearFrac ?sub"] by blast
    then show ?thesis by (simp only: e)
  qed
  show ?thesis
  proof (cases "set REQUIRED_COLUMNS \<subseteq> set (columns df) \<and> ?sub \<noteq> [] \<and>
      (\<forall>r \<in> set ?sub. YearFrac r \<noteq> None \<and> FwdRate r \<noteq> None)")
    case True
    then have n: "\<not> list_ex (\<lambda>r. YearFrac r = None) ?sub" "\<not> list_ex (\<lambda>r. FwdRate r = None) ?sub"
      unfolding list_ex_iff by blast+
    have "curve_from_long_df df ix = ForwardCurve_new ix ?pts"
      unfolding curve_from_long_df_def Let_def using True cols n by simp
    then show ?thesis using True ForwardCurve_new_ok_iff [of ix ?pts] d by auto
  next
    case False
    then consider "\<not> set REQUIRED_COLUMNS \<subseteq> set (columns df)" | "?sub = []"
      | "list_ex (\<lambda>r. YearFrac r = None) ?sub" | "list_ex (\<lambda>r. FwdRate r = None) ?sub"
      by (auto simp: list_ex_iff)
    then have "\<exists>e. curve_from_long_df df ix = Inl e"
      unfolding curve_from_long_df_def Let_def using cols by cases simp_all
    then have "\<not> (\<exists>c. curve_from_long_df df ix = Inr c)" by auto
    with False show ?thesis by blast
  qed
qed

lemma curve_from_long_df_shift:
  "(\<exists>c. curve_from_long_df (shift_FwdRate sel sh df) ix = Inr c)
   \<longleftrightarrow> (\<exists>c. curve_from_long_df df ix = Inr c)"
  unfolding curve_from_long_df_ok_iff filter_rows_shift_FwdRate rows_shift_FwdRate
  by (auto simp: comp_def if_distrib [of YearFrac] if_distrib [of FwdRate] cong: if_cong)

lemma rebuild_curves_loop_frame:
  "rebuild_curves_loop df ixs cs h = (res, h') \<Longrightarrow> \<exists>ys. h' = h @ ys"
proof (induction ixs arbitrary: cs h)
  case Nil
  then show ?case by simp
next
  case (Cons ix ixs)
  show ?case
  proof (cases "curve_from_long_df df ix")
    case (Inl e)
    with Cons.prems show ?thesis by (simp add: bind_heap_simps)
  next
    case (Inr c)
    with Cons.prems have "rebuild_curves_loop df ixs (cs(ix \<mapsto> length h)) (h @ [ForwardCurve_obj c]) = (res, h')"
      by (simp add: bind_heap_simps alloc_def)
    from Cons.IH [OF this] show ?thesis by auto
  qed
qed

lemma rebuild_curves_loop_ok:
  "\<forall>ix \<in> set ixs. \<exists>c. curve_from_long_df df ix = Inr c \<Longrightarrow>
   \<exists>cs' ys. rebuild_curves_loop df ixs cs h = (Inr cs', h @ ys) \<and>
     (\<forall>k. k \<notin> set ixs \<longrightarrow> cs' k = cs k) \<and>
     (\<forall>ix \<in> set ixs. \<exists>a c. cs' ix = Some a \<and> length h \<le> a \<and> a < length (h @ ys) \<and>
         (h @ ys) ! a = ForwardCurve_obj c \<and> curve_from_long_df df ix = Inr c)"
proof (induction ixs arbitrary: cs h)
  case Nil
  then show ?case by simp
next
  case (Cons ix ixs)
  from Cons.prems obtain c where c: "curve_from_long_df df ix = Inr c" by auto
  let ?h1 = "h @ [ForwardCurve_obj c]" and ?cs1 = "cs(ix \<mapsto> length h)"
  from Cons.prems have "\<forall>ix \<in> set ixs. \<exists>c. curve_from_long_df df ix = Inr c" by simp
  from Cons.IH [OF this, of ?cs1 ?h1] obtain cs' ys where
    r: "rebuild_curves_loop df ixs ?cs1 ?h1 = (Inr cs', ?h1 @ ys)"
    and keep: "\<forall>k. k \<notin> set ixs \<longrightarrow> cs' k = ?cs1 k"
    and new: "\<forall>ix \<in> set ixs. \<exists>a c. cs' ix = Some a \<and> length ?h1 \<le> a \<and> a < length (?h1 @ ys) \<and>
         (?h1 @ ys) ! a = ForwardCurve_obj c \<and> curve_from_long_df df ix = Inr c"
    by blast
  have e: "rebuild_curves_loop df (ix # ixs) cs h = (Inr cs', h @ (ForwardCurve_obj c # ys))"
    using c r by (simp add: bind_heap_simps alloc_def)
  have k: "\<forall>k. k \<notin> set (ix # ixs) \<longrightarrow> cs' k = cs k" using keep by simp
  have n: "\<exists>a c'. cs' j = Some a \<and> length h \<le> a \<and> a < length (h @ (ForwardCurve_obj c # ys)) \<and>
         (h @ (ForwardCurve_obj c # ys)) ! a = ForwardCurve_obj c' \<and> curve_from_long_df df j = Inr c'"
    if j: "j \<in> set (ix # ixs)" for j
  proof (cases "j \<in> set ixs")
    case True
    with new obtain a c' where "cs' j = Some a" "length ?h1 \<le> a" "a < length (?h1 @ ys)"
      "(?h1 @ ys) ! a = ForwardCurve_obj c'" "curve_from_long_df df j = Inr c'" by blast
    then show ?thesis by (intro exI [of _ a] exI [of _ c']) simp
  next
    case False
    then have "j = ix" using j by simp
    moreover have "cs' ix = Some (length h)" using keep False \<open>j = ix\<close> by simp
    ultimately show ?thesis using c by (intro exI [of _ "length h"] exI [of _ c]) simp
  qed
  show ?case
    using e k n by (intro exI [of _ cs'] exI [of _ "ForwardCurve_obj c # ys"]) blast
qed

lemma validate_curve_points_columns_iff:
  "validate_curve_points_columns df = Inr () \<longleftrightarrow> set REQUIRED_COLUMNS \<subseteq> set (columns df)"
  by (auto simp: validate_curve_points_columns_def Let_def filter_empty_conv)

lemma validate_curve_points_columns_cases:
  "validate_curve_points_columns df = Inr () \<or> validate_curve_points_columns df = Inl InvalidCurveTable"
  by (simp add: validate_curve_points_columns_def Let_def)

text \<open>The call once the base set and its table have been read and the columns accepted.\<close>

lemma apply_parallel_shock_unfold:
  assumes gs: "get_ForwardCurveSet h b = Inr bs"
    and gd: "get_DataFrame h (ForwardCurveSet.points bs) = Inr df"
    and vc: "set REQUIRED_COLUMNS \<subseteq> set (columns df)"
  shows "apply_parallel_shock h b shock ap =
    (case normalise_apply_to ap (set (map IndexName (rows df))) of
       Inl e \<Rightarrow> (Inl e, h @ [DataFrame_obj df])
     | Inr sel \<Rightarrow>
         bind_heap
           (rebuild_curves_loop (shift_FwdRate sel (shift_decimal shock) df)
              (sort (remdups (map IndexName (rows df)))) Map.empty
              (h @ [DataFrame_obj (shift_FwdRate sel (shift_decimal shock) df)]))
           (\<lambda>cs h3. (Inr (length h3),
               h3 @ [ForwardCurveSet_obj
                      \<lparr>analysis_date = analysis_date bs, base = base bs,
                       ForwardCurveSet.points = length h, curves = cs\<rparr>])))"
proof -
  have v: "validate_curve_points_columns df = Inr ()"
    using vc by (simp add: validate_curve_points_columns_iff)
  have g1: "get_DataFrame (h @ [DataFrame_obj df]) (length h) = Inr df" by (rule get_new)
  have g2: "get_DataFrame ((h @ [DataFrame_obj df])[length h := DataFrame_obj d']) (length h) = Inr d'" for d'
    by (simp add: get_DataFrame_def)
  have u: "(h @ [DataFrame_obj df])[length h := DataFrame_obj d'] = h @ [DataFrame_obj d']" for d'
    by simp
  show ?thesis
  proof (cases "normalise_apply_to ap (set (map IndexName (rows df)))")
    case (Inl e)
    then show ?thesis
      by (simp add: apply_parallel_shock_def gs gd v g1 bind_heap_simps alloc_def)
  next
    case (Inr sel)
    then show ?thesis
      by (simp add: apply_parallel_shock_def gs gd v g1 bind_heap_simps alloc_def
          rebuild_curves_def get_new rows_shift_FwdRate)
  qed
qed

lemma apply_parallel_shock_frame:
  assumes "apply_parallel_shock h b shock ap = (res, h')"
  shows "\<exists>ys. h' = h @ ys"
proof (cases "get_ForwardCurveSet h b")
  case (Inl e)
  then show ?thesis using assms by (simp add: apply_parallel_shock_def bind_heap_simps)
next
  case gs: (Inr bs)
  show ?thesis
  proof (cases "get_DataFrame h (ForwardCurveSet.points bs)")
    case (Inl e)
    then show ?thesis using assms gs by (simp add: apply_parallel_shock_def bind_heap_simps)
  next
    case gd: (Inr df)
    show ?thesis
    proof (cases "set REQUIRED_COLUMNS \<subseteq> set (columns df)")
      case False
      then have "validate_curve_points_columns df = Inl InvalidCurveTable"
        using validate_curve_points_columns_cases [of df] validate_curve_points_columns_iff [of df]
        by auto
      then show ?thesis using assms gs gd by (simp add: apply_parallel_shock_def bind_heap_simps)
    next
      case True
      note u = apply_parallel_shock_unfold [OF gs gd True, of shock ap]
      show ?thesis
      proof (cases "normalise_apply_to ap (set (map IndexName (rows df)))")
        case (Inl e)
        then show ?thesis using assms u by auto
      next
        case (Inr sel)
        obtain r3 h3 where l: "rebuild_curves_loop (shift_FwdRate sel (shift_decimal shock) df)
              (sort (remdups (map IndexName (rows df)))) Map.empty
              (h @ [DataFrame_obj (shift_FwdRate sel (shift_decimal shock) df)]) = (r3, h3)"
          by (cases "rebuild_curves_loop (shift_FwdRate sel (shift_decimal shock) df)
              (sort (remdups (map IndexName (rows df)))) Map.empty
              (h @ [DataFrame_obj (shift_FwdRate sel (shift_decimal shock) df)])") blast
        from rebuild_curves_loop_frame [OF l] obtain ys where
          h3: "h3 = (h @ [DataFrame_obj (shift_FwdRate sel (shift_decimal shock) df)]) @ ys" by blast
        show ?thesis
        proof (cases r3)
          case (Inl e)
          then show ?thesis using assms u Inr l h3 by (auto simp: bind_heap_simps)
        next
          case r: (Inr cs)
          then show ?thesis using assms u Inr l h3 by (auto simp: bind_heap_simps)
        qed
      qed
    qed
  qed
qed

lemma rebuild_curves_loop_Inr:
  "rebuild_curves_loop df ixs cs h = (Inr cs', h') \<Longrightarrow>
   \<exists>ys. h' = h @ ys \<and> (\<forall>k a. cs' k = Some a \<longrightarrow> cs k = Some a \<or> (length h \<le> a \<and> a < length h'))"
proof (induction ixs arbitrary: cs h)
  case Nil
  then show ?case by simp
next
  case (Cons ix ixs)
  show ?case
  proof (cases "curve_from_long_df df ix")
    case (Inl e)
    with Cons.prems show ?thesis by (simp add: bind_heap_simps)
  next
    case (Inr c)
    with Cons.prems have "rebuild_curves_loop df ixs (cs(ix \<mapsto> length h)) (h @ [ForwardCurve_obj c]) = (Inr cs', h')"
      by (simp add: bind_heap_simps alloc_def)
    from Cons.IH [OF this] obtain ys where
      h': "h' = (h @ [ForwardCurve_obj c]) @ ys"
      and r: "\<forall>k a. cs' k = Some a \<longrightarrow> (cs(ix \<mapsto> length h)) k = Some a
                \<or> (length (h @ [ForwardCurve_obj c]) \<le> a \<and> a < length h')"
      by blast
    have "cs k = Some a \<or> (length h \<le> a \<and> a < length h')" if "cs' k = Some a" for k a
      using r [rule_format, OF that] h' by (cases "k = ix") auto
    then show ?thesis using h' by auto
  qed
qed

text \<open>The shape of the heap after a call that returns.\<close>

lemma apply_parallel_shock_Inr:
  assumes "apply_parallel_shock h b shock ap = (Inr r, h')"
  shows "\<exists>bs df sel cs ys.
     get_ForwardCurveSet h b = Inr bs \<and>
     get_DataFrame h (ForwardCurveSet.points bs) = Inr df \<and>
     set REQUIRED_COLUMNS \<subseteq> set (columns df) \<and>
     normalise_apply_to ap (set (map IndexName (rows df))) = Inr sel \<and>
     h' = h @ DataFrame_obj (shift_FwdRate sel (shift_decimal shock) df) # ys
            @ [ForwardCurveSet_obj \<lparr>analysis_date = analysis_date bs, base = base bs,
                                     ForwardCurveSet.points = length h, curves = cs\<rparr>] \<and>
     r = length h + 1 + length ys \<and>
     (\<forall>k a. cs k = Some a \<longrightarrow> length h < a \<and> a \<le> length h + length ys)"
proof (cases "get_ForwardCurveSet h b")
  case (Inl e)
  then show ?thesis using assms by (simp add: apply_parallel_shock_def bind_heap_simps)
next
  case gs: (Inr bs)
  show ?thesis
  proof (cases "get_DataFrame h (ForwardCurveSet.points bs)")
    case (Inl e)
    then show ?thesis using assms gs by (simp add: apply_parallel_shock_def bind_heap_simps)
  next
    case gd: (Inr df)
    show ?thesis
    proof (cases "set REQUIRED_COLUMNS \<subseteq> set (columns df)")
      case False
      then have "validate_curve_points_columns df = Inl InvalidCurveTable"
        using validate_curve_points_columns_cases [of df] validate_curve_points_columns_iff [of df]
        by auto
      then show ?thesis using assms gs gd by (simp add: apply_parallel_shock_def bind_heap_simps)
    next
      case vc: True
      note u = apply_parallel_shock_unfold [OF gs gd vc, of shock ap]
      show ?thesis
      proof (cases "normalise_apply_to ap (set (map IndexName (rows df)))")
        case (Inl e)
        then show ?thesis using assms u by auto
      next
        case sel: (Inr sel)
        let ?d = "shift_FwdRate sel (shift_decimal shock) df"
        obtain r3 h3 where l: "rebuild_curves_loop ?d
              (sort (remdups (map IndexName (rows df)))) Map.empty (h @ [DataFrame_obj ?d]) = (r3, h3)"
          by (cases "rebuild_curves_loop ?d
              (sort (remdups (map IndexName (rows df)))) Map.empty (h @ [DataFrame_obj ?d])") blast
        show ?thesis
        proof (cases r3)
          case (Inl e)
          then show ?thesis using assms u sel l by (simp add: bind_heap_simps)
        next
          case r3: (Inr cs)
          from rebuild_curves_loop_Inr [OF l [unfolded r3]] obtain ys where
            h3: "h3 = (h @ [DataFrame_obj ?d]) @ ys"
            and rng: "\<forall>k a. cs k = Some a \<longrightarrow> Map.empty k = Some a
                 \<or> (length (h @ [DataFrame_obj ?d]) \<le> a \<and> a < length h3)"
            by blast
          have res: "r = length h3" "h' = h3 @ [ForwardCurveSet_obj
                 \<lparr>analysis_date = analysis_date bs, base = base bs,
                  ForwardCurveSet.points = length h, curves = cs\<rparr>]"
            using assms u sel l r3 by (simp_all add: bind_heap_simps)
          have c: "\<forall>k a. cs k = Some a \<longrightarrow> length h < a \<and> a \<le> length h + length ys"
          proof (intro allI impI)
            fix k a assume "cs k = Some a"
            with rng have "length (h @ [DataFrame_obj ?d]) \<le> a \<and> a < length h3" by simp
            then show "length h < a \<and> a \<le> length h + length ys" unfolding h3 by simp
          qed
          show ?thesis
            using gs gd vc sel res h3 c
            by (intro exI [of _ bs] exI [of _ df] exI [of _ sel] exI [of _ cs] exI [of _ ys]) simp
        qed
      qed
    qed
  qed
qed

text \<open>A call on a well-formed base set with an accepted target returns.\<close>

lemma apply_parallel_shock_total:
  assumes gs: "get_ForwardCurveSet h b = Inr bs"
    and gd: "get_DataFrame h (ForwardCurveSet.points bs) = Inr df"
    and vc: "set REQUIRED_COLUMNS \<subseteq> set (columns df)"
    and build: "\<forall>ix \<in> set (map IndexName (rows df)). \<exists>c. curve_from_long_df df ix = Inr c"
    and sel: "normalise_apply_to ap (set (map IndexName (rows df))) = Inr sel"
  shows "\<exists>r h'. apply_parallel_shock h b shock ap = (Inr r, h')"
proof -
  let ?d = "shift_FwdRate sel (shift_decimal shock) df"
  let ?ixs = "sort (remdups (map IndexName (rows df)))"
  have "\<forall>ix \<in> set ?ixs. \<exists>c. curve_from_long_df ?d ix = Inr c"
    using build by (simp add: curve_from_long_df_shift)
  from rebuild_curves_loop_ok [OF this, of Map.empty "h @ [DataFrame_obj ?d]"]
  obtain cs ys where "rebuild_curves_loop ?d ?ixs Map.empty (h @ [DataFrame_obj ?d])
      = (Inr cs, (h @ [DataFrame_obj ?d]) @ ys)" by blast
  then show ?thesis
    using apply_parallel_shock_unfold [OF gs gd vc, of shock ap] sel
    by (simp add: bind_heap_simps)
qed

lemma apply_parallel_shock_result:
  assumes gs: "get_ForwardCurveSet h b = Inr bs"
    and gd: "get_DataFrame h (ForwardCurveSet.points bs) = Inr df"
    and vc: "set REQUIRED_COLUMNS \<subseteq> set (columns df)"
    and build: "\<forall>ix \<in> set (map IndexName (rows df)). \<exists>c. curve_from_long_df df ix = Inr c"
    and sel: "normalise_apply_to ap (set (map IndexName (rows df))) = Inr sel"
  shows "\<exists>r h' rs. apply_parallel_shock h b shock ap = (Inr r, h') \<and>
           get_ForwardCurveSet h' r = Inr rs \<and>
           analysis_date rs = analysis_date bs \<and> base rs = base bs \<and>
           get_DataFrame h' (ForwardCurveSet.points rs)
             = Inr (shift_FwdRate sel (shift_decimal shock) df)"
proof -
  from apply_parallel_shock_total [OF assms, of shock] obtain r h' where
    a: "apply_parallel_shock h b shock ap = (Inr r, h')" by blast
  from apply_parallel_shock_Inr [OF a] gs gd sel obtain cs ys where
    h': "h' = h @ DataFrame_obj (shift_FwdRate sel (shift_decimal shock) df) # ys
            @ [ForwardCurveSet_obj \<lparr>analysis_date = analysis_date bs, base = base bs,
                                     ForwardCurveSet.points = length h, curves = cs\<rparr>]"
    and r: "r = length h + 1 + length ys"
    by auto
  let ?rs = "\<lparr>analysis_date = analysis_date bs, base = base bs,
              ForwardCurveSet.points = length h, curves = cs\<rparr>"
  have "h' = (h @ DataFrame_obj (shift_FwdRate sel (shift_decimal shock) df) # ys)
               @ ForwardCurveSet_obj ?rs # []" using h' by simp
  moreover have "r = length (h @ DataFrame_obj (shift_FwdRate sel (shift_decimal shock) df) # ys)"
    using r by simp
  ultimately have g: "get_ForwardCurveSet h' r = Inr ?rs" by (simp only: get_new)
  have d: "get_DataFrame h' (length h) = Inr (shift_FwdRate sel (shift_decimal shock) df)"
    unfolding h' by (rule get_new)
  show ?thesis
    using a g d by (intro exI [of _ r] exI [of _ h'] exI [of _ ?rs]) simp
qed

lemmas scenario_eval =
  apply_parallel_shock_def bind_heap_simps get_ForwardCurveSet_def get_DataFrame_def
  validate_curve_points_columns_def REQUIRED_COLUMNS_def alloc_def normalise_apply_to_def
  shift_FwdRate_def shift_decimal_def rebuild_curves_def curve_from_long_df_def
  ForwardCurve_new_def upper_def strip_def is_space_def Let_def
  example_heap_def example_table_def example_set_def shock_up_def

lemma example_apply_all:
  "apply_parallel_shock example_heap 3 shock_up None =
     (Inr 7, example_heap @
       [DataFrame_obj (shift_FwdRate {''EUR'', ''USD''} (2 / 100) example_table),
        ForwardCurve_obj
          \<lparr>index_name = ''EUR'',
           points = [\<lparr>year_frac = 1, rate = 4 / 100, tenor = ''1Y'',
                      tenor_date = \<lparr>year = 2025, month = 1, day = 1\<rparr>\<rparr>,
                     \<lparr>year_frac = 2, rate = 5 / 100, tenor = ''2Y'',
                      tenor_date = \<lparr>year = 2026, month = 1, day = 1\<rparr>\<rparr>]\<rparr>,
        ForwardCurve_obj
          \<lparr>index_name = ''USD'',
           points = [\<lparr>year_frac = 1, rate = 7 / 100, tenor = ''1Y'',
                      tenor_date = \<lparr>year = 2025, month = 1, day = 1\<rparr>\<rparr>]\<rparr>,
        ForwardCurveSet_obj
          \<lparr>analysis_date = \<lparr>year = 2024, month = 1, day = 1\<rparr>, base = ''ACT/365'',
           ForwardCurveSet.points = 4, curves = [''EUR'' \<mapsto> 5, ''USD'' \<mapsto> 6]\<rparr>])"
  by (simp add: scenario_eval eval_nat_numeral)

lemma example_wf:
  "get_ForwardCurveSet example_heap 3 = Inr example_set"
  "get_DataFrame example_heap (ForwardCurveSet.points example_set) = Inr example_table"
  "set REQUIRED_COLUMNS \<subseteq> set (columns example_table)"
  "\<forall>ix \<in> set (map IndexName (rows example_table)). \<exists>c. curve_from_long_df example_table ix = Inr c"
proof -
  show "get_ForwardCurveSet example_heap 3 = Inr example_set"
    by (simp add: get_ForwardCurveSet_def example_heap_def)
  show "get_DataFrame example_heap (ForwardCurveSet.points example_set) = Inr example_table"
    by (simp add: get_DataFrame_def example_heap_def example_set_def)
  show c: "set REQUIRED_COLUMNS \<subseteq> set (columns example_table)"
    by (simp add: REQUIRED_COLUMNS_def example_table_def)
  have "\<exists>c. curve_from_long_df example_table ''EUR'' = Inr c"
    unfolding curve_from_long_df_ok_iff using c by (simp add: example_table_def del: not_None_eq)
  moreover have "\<exists>c. curve_from_long_df example_table ''USD'' = Inr c"
    unfolding curve_from_long_df_ok_iff using c by (simp add: example_table_def del: not_None_eq)
  moreover have "set (map IndexName (rows example_table)) = {''EUR'', ''USD''}"
    by (auto simp: example_table_def)
  ultimately show "\<forall>ix \<in> set (map IndexName (rows example_table)).
      \<exists>c. curve_from_long_df example_table ix = Inr c"
    by simp
qed

lemma selected_conv:
  "set (map strip (filter (\<lambda>ix. strip ix \<noteq> []) ixs)) = {strip ix | ix. ix \<in> set ixs \<and> strip ix \<noteq> []}"
  by auto





subsection \<open>The rates of the shocked table\<close>

text \<open>
  Claim C3. Let the base set be well formed: its table carries the required columns and
  builds a curve for each of its index names (as it did when the set was made). Then
  \<open>apply_parallel_shock\<close> with \<open>apply_to = None\<close> returns a set whose table has the rows of
  the base table with every FwdRate raised by \<open>shift_bps / 10000\<close>. With an explicit
  \<open>apply_to\<close> whose resolved subset (the stripped, non-blank entries) is not empty and lies
  within the index names of the table, the rows whose index name is in the subset are
  raised by that amount and every other row is the row of the base table.
\<close>

theorem apply_parallel_shock_shifts_rates:
  assumes "get_ForwardCurveSet h b = Inr bs"
    and "get_DataFrame h (ForwardCurveSet.points bs) = Inr df"
    and "set REQUIRED_COLUMNS \<subseteq> set (columns df)"
    and "\<forall>ix \<in> set (map IndexName (rows df)). \<exists>c. curve_from_long_df df ix = Inr c"
  shows "(\<exists>r h' rs df'. apply_parallel_shock h b shock None = (Inr r, h') \<and>
            get_ForwardCurveSet h' r = Inr rs \<and>
            get_DataFrame h' (ForwardCurveSet.points rs) = Inr df' \<and>
            columns df' = columns df \<and>
            rows df' = map (\<lambda>x. x\<lparr>FwdRate := map_option (\<lambda>v. v + shift_bps shock / 10000) (FwdRate x)\<rparr>)
                         (rows df)) \<and>
         (set (map strip (filter (\<lambda>ix. strip ix \<noteq> []) ixs)) \<noteq> {} \<and>
          set (map strip (filter (\<lambda>ix. strip ix \<noteq> []) ixs)) \<subseteq> set (map IndexName (rows df)) \<longrightarrow>
          (\<exists>r h' rs df'. apply_parallel_shock h b shock (Some ixs) = (Inr r, h') \<and>
            get_ForwardCurveSet h' r = Inr rs \<and>
            get_DataFrame h' (ForwardCurveSet.points rs) = Inr df' \<and>
            columns df' = columns df \<and>
            rows df' = map (\<lambda>x. if IndexName x \<in> set (map strip (filter (\<lambda>ix. strip ix \<noteq> []) ixs))
                                 then x\<lparr>FwdRate := map_option (\<lambda>v. v + shift_bps shock / 10000) (FwdRate x)\<rparr>
                                 else x)
                         (rows df)))"
proof (intro conjI impI)
  have n: "normalise_apply_to None (set (map IndexName (rows df))) = Inr (set (map IndexName (rows df)))"
    by (simp add: normalise_apply_to_def)
  from apply_parallel_shock_result [OF assms n, of shock] obtain r h' rs where
    a: "apply_parallel_shock h b shock None = (Inr r, h')" "get_ForwardCurveSet h' r = Inr rs"
      "get_DataFrame h' (ForwardCurveSet.points rs)
        = Inr (shift_FwdRate (set (map IndexName (rows df))) (shift_decimal shock) df)"
    by blast
  let ?d = "shift_FwdRate (set (map IndexName (rows df))) (shift_decimal shock) df"
  have "rows ?d = map (\<lambda>x. x\<lparr>FwdRate := map_option (\<lambda>v. v + shift_bps shock / 10000) (FwdRate x)\<rparr>)
                         (rows df)"
    by (simp add: shift_FwdRate_def shift_decimal_def)
  moreover have "columns ?d = columns df" by (simp add: shift_FwdRate_def)
  ultimately show "\<exists>r h' rs df'. apply_parallel_shock h b shock None = (Inr r, h') \<and>
            get_ForwardCurveSet h' r = Inr rs \<and>
            get_DataFrame h' (ForwardCurveSet.points rs) = Inr df' \<and>
            columns df' = columns df \<and>
            rows df' = map (\<lambda>x. x\<lparr>FwdRate := map_option (\<lambda>v. v + shift_bps shock / 10000) (FwdRate x)\<rparr>)
                         (rows df)"
    using a by blast
next
  let ?sel = "set (map strip (filter (\<lambda>ix. strip ix \<noteq> []) ixs))"
  assume s: "?sel \<noteq> {} \<and> ?sel \<subseteq> set (map IndexName (rows df))"
  then have n: "normalise_apply_to (Some ixs) (set (map IndexName (rows df))) = Inr ?sel"
    unfolding normalise_apply_to_def Let_def by auto
  from apply_parallel_shock_result [OF assms n, of shock] obtain r h' rs where
    a: "apply_parallel_shock h b shock (Some ixs) = (Inr r, h')" "get_ForwardCurveSet h' r = Inr rs"
      "get_DataFrame h' (ForwardCurveSet.points rs) = Inr (shift_FwdRate ?sel (shift_decimal shock) df)"
    by blast
  let ?d = "shift_FwdRate ?sel (shift_decimal shock) df"
  have "rows ?d = map (\<lambda>x. if IndexName x \<in> ?sel
                                 then x\<lparr>FwdRate := map_option (\<lambda>v. v + shift_bps shock / 10000) (FwdRate x)\<rparr>
                                 else x) (rows df)"
    by (simp add: shift_FwdRate_def shift_decimal_def)
  moreover have "columns ?d = columns df" by (simp add: shift_FwdRate_def)
  ultimately show "\<exists>r h' rs df'. apply_parallel_shock h b shock (Some ixs) = (Inr r, h') \<and>
            get_ForwardCurveSet h' r = Inr rs \<and>
            get_DataFrame h' (ForwardCurveSet.points rs) = Inr df' \<and>
            columns df' = columns df \<and>
            rows df' = map (\<lambda>x. if IndexName x \<in> ?sel
                                 then x\<lparr>FwdRate := map_option (\<lambda>v. v + shift_bps shock / 10000) (FwdRate x)\<rparr>
                                 else x) (rows df)"
    using a by blast
qed

theorem apply_parallel_shock_shifts_rates_witness:
  "get_ForwardCurveSet example_heap 3 = Inr example_set \<and>
   get_DataFrame example_heap (ForwardCurveSet.points example_set) = Inr example_table \<and>
   set REQUIRED_COLUMNS \<subseteq> set (columns example_table) \<and>
   (\<exists>c. curve_from_long_df example_table ''EUR'' = Inr c) \<and>
   (\<exists>c. curve_from_long_df example_table ''USD'' = Inr c) \<and>
   (\<exists>r h' rs df'. apply_parallel_shock example_heap 3 shock_up None = (Inr r, h') \<and>
      get_ForwardCurveSet h' r = Inr rs \<and>
      get_DataFrame h' (ForwardCurveSet.points rs) = Inr df' \<and>
      map FwdRate (rows df') = [Some (4 / 100), Some (5 / 100), Some (7 / 100)]) \<and>
   (\<exists>r h' rs df'. apply_parallel_shock example_heap 3 shock_up (Some ['' USD '', '' '']) = (Inr r, h') \<and>
      get_ForwardCurveSet h' r = Inr rs \<and>
      get_DataFrame h' (ForwardCurveSet.points rs) = Inr df' \<and>
      map FwdRate (rows df') = [Some (2 / 100), Some (3 / 100), Some (7 / 100)])"
proof -
  note t = apply_parallel_shock_shifts_rates [OF example_wf, of shock_up "['' USD '', '' '']"]
  have sel: "set (map strip (filter (\<lambda>ix. strip ix \<noteq> []) ['' USD '', '' ''])) = {''USD''}"
    by (simp add: strip_def is_space_def)
  have names: "set (map IndexName (rows example_table)) = {''EUR'', ''USD''}"
    by (auto simp: example_table_def)
  from t obtain r h' rs df' where a: "apply_parallel_shock example_heap 3 shock_up None = (Inr r, h')"
      "get_ForwardCurveSet h' r = Inr rs" "get_DataFrame h' (ForwardCurveSet.points rs) = Inr df'"
      "rows df' = map (\<lambda>x. x\<lparr>FwdRate := map_option (\<lambda>v. v + shift_bps shock_up / 10000) (FwdRate x)\<rparr>)
                         (rows example_table)"
    by blast
  have a': "map FwdRate (rows df') = [Some (4 / 100), Some (5 / 100), Some (7 / 100)]"
    unfolding a(4) by (simp add: example_table_def shock_up_def)
  from t sel names obtain r2 h2 rs2 df2 where
    b: "apply_parallel_shock example_heap 3 shock_up (Some ['' USD '', '' '']) = (Inr r2, h2)"
      "get_ForwardCurveSet h2 r2 = Inr rs2" "get_DataFrame h2 (ForwardCurveSet.points rs2) = Inr df2"
      "rows df2 = map (\<lambda>x. if IndexName x \<in> set (map strip (filter (\<lambda>ix. strip ix \<noteq> []) ['' USD '', '' '']))
                                 then x\<lparr>FwdRate := map_option (\<lambda>v. v + shift_bps shock_up / 10000) (FwdRate x)\<rparr>
                                 else x)
                         (rows example_table)"
    by auto
  have b': "map FwdRate (rows df2) = [Some (2 / 100), Some (3 / 100), Some (7 / 100)]"
    unfolding b(4) sel by (simp add: example_table_def shock_up_def)
  have A: "\<exists>r h' rs df'. apply_parallel_shock example_heap 3 shock_up None = (Inr r, h') \<and>
      get_ForwardCurveSet h' r = Inr rs \<and>
      get_DataFrame h' (ForwardCurveSet.points rs) = Inr df' \<and>
      map FwdRate (rows df') = [Some (4 / 100), Some (5 / 100), Some (7 / 100)]"
    using a(1-3) a' by (intro exI [of _ r] exI [of _ h'] exI [of _ rs] exI [of _ df']) simp
  have B: "\<exists>r h' rs df'. apply_parallel_shock example_heap 3 shock_up (Some ['' USD '', '' '']) = (Inr r, h') \<and>
      get_ForwardCurveSet h' r = Inr rs \<and>
      get_DataFrame h' (ForwardCurveSet.points rs) = Inr df' \<and>
      map FwdRate (rows df') = [Some (2 / 100), Some (3 / 100), Some (7 / 100)]"
    using b(1-3) b' by (intro exI [of _ r2] exI [of _ h2] exI [of _ rs2] exI [of _ df2]) simp
  have e: "\<exists>c. curve_from_long_df example_table ''EUR'' = Inr c"
    "\<exists>c. curve_from_long_df example_table ''USD'' = Inr c"
    using example_wf(4) by (simp_all add: example_table_def)
  show ?thesis by (intro conjI; rule example_wf(1-3) e A B)
qed

subsection \<open>The base set after the call\<close>

text \<open>
  Claim C4. Whatever the outcome of \<open>apply_parallel_shock\<close>, every object of the heap before
  the call is the same object after it: the base set with its analysis date and day-count
  base, its table with every row and rate, and each of its curves. When the call returns,
  the set returned is a new object, its table and its curves are new objects, and it
  carries the analysis date and the day-count base of the base set.
\<close>

theorem apply_parallel_shock_leaves_base:
  assumes "apply_parallel_shock h b shock ap = (res, h')"
  shows "take (length h) h' = h \<and>
         (\<forall>a df. get_DataFrame h a = Inr df \<longrightarrow> get_DataFrame h' a = Inr df) \<and>
         (\<forall>a c. get_ForwardCurve h a = Inr c \<longrightarrow> get_ForwardCurve h' a = Inr c) \<and>
         (\<forall>a s. get_ForwardCurveSet h a = Inr s \<longrightarrow> get_ForwardCurveSet h' a = Inr s) \<and>
         (\<forall>r. res = Inr r \<longrightarrow>
            length h \<le> r \<and>
            (\<exists>bs rs. get_ForwardCurveSet h b = Inr bs \<and> get_ForwardCurveSet h' r = Inr rs \<and>
               analysis_date rs = analysis_date bs \<and> base rs = base bs \<and>
               length h \<le> ForwardCurveSet.points rs \<and>
               (\<forall>k a. curves rs k = Some a \<longrightarrow> length h \<le> a)))"
proof (intro conjI allI impI)
  from apply_parallel_shock_frame [OF assms] obtain ys where h': "h' = h @ ys" by blast
  show "take (length h) h' = h" using h' by simp
  show "get_DataFrame h' a = Inr df" if "get_DataFrame h a = Inr df" for a df
    using that get_Inr_bound(1) [OF that] h' by (simp add: get_append)
  show "get_ForwardCurve h' a = Inr c" if "get_ForwardCurve h a = Inr c" for a c
    using that get_Inr_bound(2) [OF that] h' by (simp add: get_append)
  show "get_ForwardCurveSet h' a = Inr s" if "get_ForwardCurveSet h a = Inr s" for a s
    using that get_Inr_bound(3) [OF that] h' by (simp add: get_append)
next
  fix r assume r: "res = Inr r"
  from apply_parallel_shock_Inr [OF assms [unfolded r]] obtain bs df sel cs ys where
    gs: "get_ForwardCurveSet h b = Inr bs"
    and h': "h' = h @ DataFrame_obj (shift_FwdRate sel (shift_decimal shock) df) # ys
            @ [ForwardCurveSet_obj \<lparr>analysis_date = analysis_date bs, base = base bs,
                                     ForwardCurveSet.points = length h, curves = cs\<rparr>]"
    and rr: "r = length h + 1 + length ys"
    and rng: "\<forall>k a. cs k = Some a \<longrightarrow> length h < a \<and> a \<le> length h + length ys"
    by blast
  let ?rs = "\<lparr>analysis_date = analysis_date bs, base = base bs,
              ForwardCurveSet.points = length h, curves = cs\<rparr>"
  show "length h \<le> r" using rr by simp
  have "h' = (h @ DataFrame_obj (shift_FwdRate sel (shift_decimal shock) df) # ys)
               @ ForwardCurveSet_obj ?rs # []" using h' by simp
  moreover have "r = length (h @ DataFrame_obj (shift_FwdRate sel (shift_decimal shock) df) # ys)"
    using rr by simp
  ultimately have g: "get_ForwardCurveSet h' r = Inr ?rs" by (simp only: get_new)
  have "\<forall>k a. curves ?rs k = Some a \<longrightarrow> length h \<le> a"
    using rng by (simp add: less_imp_le)
  then show "\<exists>bs rs. get_ForwardCurveSet h b = Inr bs \<and> get_ForwardCurveSet h' r = Inr rs \<and>
               analysis_date rs = analysis_date bs \<and> base rs = base bs \<and>
               length h \<le> ForwardCurveSet.points rs \<and>
               (\<forall>k a. curves rs k = Some a \<longrightarrow> length h \<le> a)"
    using gs g by (intro exI [of _ bs] exI [of _ ?rs]) simp
qed

theorem apply_parallel_shock_leaves_base_witness:
  "apply_parallel_shock example_heap 3 shock_up None =
     (Inr 7, example_heap @
       [DataFrame_obj (shift_FwdRate {''EUR'', ''USD''} (2 / 100) example_table),
        ForwardCurve_obj
          \<lparr>index_name = ''EUR'',
           points = [\<lparr>year_frac = 1, rate = 4 / 100, tenor = ''1Y'',
                      tenor_date = \<lparr>year = 2025, month = 1, day = 1\<rparr>\<rparr>,
                     \<lparr>year_frac = 2, rate = 5 / 100, tenor = ''2Y'',
                      tenor_date = \<lparr>year = 2026, month = 1, day = 1\<rparr>\<rparr>]\<rparr>,
        ForwardCurve_obj
          \<lparr>index_name = ''USD'',
           points = [\<lparr>year_frac = 1, rate = 7 / 100, tenor = ''1Y'',
                      tenor_date = \<lparr>year = 2025, month = 1, day = 1\<rparr>\<rparr>]\<rparr>,
        ForwardCurveSet_obj
          \<lparr>analysis_date = \<lparr>year = 2024, month = 1, day = 1\<rparr>, base = ''ACT/365'',
           ForwardCurveSet.points = 4, curves = [''EUR'' \<mapsto> 5, ''USD'' \<mapsto> 6]\<rparr>]) \<and>
   get_ForwardCurveSet example_heap 3 = Inr example_set \<and>
   get_ForwardCurveSet (snd (apply_parallel_shock example_heap 3 shock_up None)) 3 = Inr example_set \<and>
   get_DataFrame (snd (apply_parallel_shock example_heap 3 shock_up None)) 0 = Inr example_table \<and>
   length example_heap \<le> 7"
proof -
  note e = example_apply_all
  note t = apply_parallel_shock_leaves_base [OF e]
  have s: "get_ForwardCurveSet example_heap 3 = Inr example_set" by (rule example_wf(1))
  have d: "get_DataFrame example_heap 0 = Inr example_table"
    using example_wf(2) by (simp add: example_set_def)
  from t s have s': "get_ForwardCurveSet (snd (apply_parallel_shock example_heap 3 shock_up None)) 3
      = Inr example_set"
    unfolding e by simp
  from t d have d': "get_DataFrame (snd (apply_parallel_shock example_heap 3 shock_up None)) 0
      = Inr example_table"
    unfolding e by simp
  from t have l: "length example_heap \<le> 7" by simp
  show ?thesis by (intro conjI; rule e s s' d' l)
qed

subsection \<open>Blank and padded entries of the target\<close>

lemma is_space_code_points:
  "is_space c \<longleftrightarrow> of_char c \<in> {9, 10, 11, 12, 13, 28, 29, 30, 31, 32, 133, 160 :: nat}"
proof -
  have e: "c = d \<longleftrightarrow> (of_char c :: nat) = of_char d" for d by (simp add: of_char_eq_iff)
  show ?thesis
    unfolding is_space_def insert_iff empty_iff e [of "CHR '' ''"] e [of "CHR 0x09"] e [of "CHR 0x0A"]
      e [of "CHR 0x0B"] e [of "CHR 0x0C"] e [of "CHR 0x0D"] e [of "CHR 0x1C"] e [of "CHR 0x1D"]
      e [of "CHR 0x1E"] e [of "CHR 0x1F"] e [of "CHR 0x85"] e [of "CHR 0xA0"]
    by auto
qed

lemma strip_blank_iff: "strip s = [] \<longleftrightarrow> (\<forall>c \<in> set s. is_space c)"
proof
  assume "strip s = []"
  then have a: "\<forall>c \<in> set (dropWhile is_space s). is_space c"
    by (simp add: strip_def dropWhile_eq_Nil_conv)
  have "dropWhile is_space s = []"
  proof (rule ccontr)
    assume n: "dropWhile is_space s \<noteq> []"
    then have "\<not> is_space (hd (dropWhile is_space s))" by (rule hd_dropWhile)
    moreover have "hd (dropWhile is_space s) \<in> set (dropWhile is_space s)" using n by simp
    ultimately show False using a by blast
  qed
  then show "\<forall>c \<in> set s. is_space c" by (simp add: dropWhile_eq_Nil_conv)
next
  assume "\<forall>c \<in> set s. is_space c"
  then have d: "dropWhile is_space s = []" by (simp add: dropWhile_eq_Nil_conv)
  show "strip s = []" unfolding strip_def d by simp
qed

text \<open>
  Claim C10. An entry is blank once stripped exactly when each of its characters is one
  that \<^verbatim>\<open>str.strip\<close> removes (the empty entry among them). For a base set whose table
  carries the required columns, an explicit \<open>apply_to\<close> whose entries are all blank once
  stripped (the empty collection among them) makes \<open>apply_parallel_shock\<close> fail with
  \<open>EmptyShockTarget\<close>; an entry whose stripped form is not blank and is not an index name
  of the table makes it fail with \<open>UnknownIndex\<close>; otherwise the target resolves to the set
  of the stripped forms of the non-blank entries.
\<close>

theorem apply_to_stripped_entries:
  assumes "get_ForwardCurveSet h b = Inr bs"
    and "get_DataFrame h (ForwardCurveSet.points bs) = Inr df"
    and "set REQUIRED_COLUMNS \<subseteq> set (columns df)"
  shows "((\<forall>ix \<in> set ixs. strip ix = []) \<longrightarrow>
            fst (apply_parallel_shock h b shock (Some ixs)) = Inl EmptyShockTarget) \<and>
         ((\<exists>ix \<in> set ixs. strip ix \<noteq> [] \<and> strip ix \<notin> set (map IndexName (rows df))) \<longrightarrow>
            fst (apply_parallel_shock h b shock (Some ixs)) = Inl UnknownIndex) \<and>
         ((\<exists>ix \<in> set ixs. strip ix \<noteq> []) \<and>
          (\<forall>ix \<in> set ixs. strip ix \<noteq> [] \<longrightarrow> strip ix \<in> set (map IndexName (rows df))) \<longrightarrow>
            normalise_apply_to (Some ixs) (set (map IndexName (rows df)))
              = Inr {strip ix | ix. ix \<in> set ixs \<and> strip ix \<noteq> []}) \<and>
         (strip e = [] \<longleftrightarrow>
            (\<forall>c \<in> set e. of_char c \<in> {9, 10, 11, 12, 13, 28, 29, 30, 31, 32, 133, 160 :: nat}))"
proof (intro conjI impI)
  note u = apply_parallel_shock_unfold [OF assms, of shock "Some ixs"]
  let ?sel = "set (map strip (filter (\<lambda>ix. strip ix \<noteq> []) ixs))"
  let ?av = "set (map IndexName (rows df))"
  {
    assume "\<forall>ix \<in> set ixs. strip ix = []"
    then have "?sel = {}" by (auto simp: filter_empty_conv)
    then have "normalise_apply_to (Some ixs) ?av = Inl EmptyShockTarget"
      by (simp add: normalise_apply_to_def)
    then show "fst (apply_parallel_shock h b shock (Some ixs)) = Inl EmptyShockTarget"
      unfolding u by simp
  }
  {
    assume "\<exists>ix \<in> set ixs. strip ix \<noteq> [] \<and> strip ix \<notin> ?av"
    then obtain ix where ix: "ix \<in> set ixs" "strip ix \<noteq> []" "strip ix \<notin> ?av" by blast
    then have "strip ix \<in> ?sel - ?av" by auto
    then have "?sel \<noteq> {}" "?sel - ?av \<noteq> {}" by auto
    then have "normalise_apply_to (Some ixs) ?av = Inl UnknownIndex"
      unfolding normalise_apply_to_def Let_def by simp
    then show "fst (apply_parallel_shock h b shock (Some ixs)) = Inl UnknownIndex"
      unfolding u by simp
  }
  {
    assume a: "(\<exists>ix \<in> set ixs. strip ix \<noteq> []) \<and>
          (\<forall>ix \<in> set ixs. strip ix \<noteq> [] \<longrightarrow> strip ix \<in> ?av)"
    then have "?sel \<noteq> {}" "?sel - ?av = {}" by auto
    then have "normalise_apply_to (Some ixs) ?av = Inr ?sel"
      unfolding normalise_apply_to_def Let_def by simp
    then show "normalise_apply_to (Some ixs) ?av = Inr {strip ix | ix. ix \<in> set ixs \<and> strip ix \<noteq> []}"
      unfolding selected_conv .
  }
  show "strip e = [] \<longleftrightarrow>
            (\<forall>c \<in> set e. of_char c \<in> {9, 10, 11, 12, 13, 28, 29, 30, 31, 32, 133, 160 :: nat})"
    unfolding strip_blank_iff is_space_code_points ..
qed

theorem apply_to_stripped_entries_witness:
  "get_ForwardCurveSet example_heap 3 = Inr example_set \<and>
   get_DataFrame example_heap (ForwardCurveSet.points example_set) = Inr example_table \<and>
   set REQUIRED_COLUMNS \<subseteq> set (columns example_table) \<and>
   fst (apply_parallel_shock example_heap 3 shock_up (Some ['' '', ''''])) = Inl EmptyShockTarget \<and>
   fst (apply_parallel_shock example_heap 3 shock_up (Some [[CHR 0xA0], [CHR 0x85, CHR 0x09]]))
     = Inl EmptyShockTarget \<and>
   fst (apply_parallel_shock example_heap 3 shock_up (Some [])) = Inl EmptyShockTarget \<and>
   fst (apply_parallel_shock example_heap 3 shock_up (Some ['' GBP ''])) = Inl UnknownIndex \<and>
   normalise_apply_to (Some ['' USD '', '' '']) (set (map IndexName (rows example_table)))
     = Inr {''USD''} \<and>
   normalise_apply_to (Some [''USD'' @ [CHR 0xA0], CHR 0x85 # ''EUR'' @ [CHR 0x09], [CHR 0xA0]])
       (set (map IndexName (rows example_table)))
     = Inr {''USD'', ''EUR''} \<and>
   strip [CHR 0xA0, CHR 0x85] = []"
proof -
  note w = example_wf(1-3)
  have s: "strip '' '' = []" "strip '''' = []" "strip '' GBP '' = ''GBP''" "strip '' USD '' = ''USD''"
    "strip [CHR 0xA0] = []" "strip [CHR 0x85, CHR 0x09] = []"
    "strip (''USD'' @ [CHR 0xA0]) = ''USD''" "strip (CHR 0x85 # ''EUR'' @ [CHR 0x09]) = ''EUR''"
    by (simp_all add: strip_def is_space_def)
  have names: "set (map IndexName (rows example_table)) = {''EUR'', ''USD''}"
    by (auto simp: example_table_def)
  have a: "fst (apply_parallel_shock example_heap 3 shock_up (Some ['' '', ''''])) = Inl EmptyShockTarget"
    using apply_to_stripped_entries [OF w, of "['' '', '''']" shock_up] s by simp
  have a2: "fst (apply_parallel_shock example_heap 3 shock_up (Some [[CHR 0xA0], [CHR 0x85, CHR 0x09]]))
     = Inl EmptyShockTarget"
    using apply_to_stripped_entries [OF w, of "[[CHR 0xA0], [CHR 0x85, CHR 0x09]]" shock_up] s by simp
  have a3: "fst (apply_parallel_shock example_heap 3 shock_up (Some [])) = Inl EmptyShockTarget"
    using apply_to_stripped_entries [OF w, of "[]" shock_up] by simp
  have b: "fst (apply_parallel_shock example_heap 3 shock_up (Some ['' GBP ''])) = Inl UnknownIndex"
    using apply_to_stripped_entries [OF w, of "['' GBP '']" shock_up] s names by simp
  have "normalise_apply_to (Some ['' USD '', '' '']) (set (map IndexName (rows example_table)))
     = Inr {strip ix | ix. ix \<in> set ['' USD '', '' ''] \<and> strip ix \<noteq> []}"
    using apply_to_stripped_entries [OF w, of "['' USD '', '' '']" shock_up] s names by simp
  moreover have "{strip ix | ix. ix \<in> set ['' USD '', '' ''] \<and> strip ix \<noteq> []} = {''USD''}"
    unfolding selected_conv [symmetric] using s by simp
  ultimately have c: "normalise_apply_to (Some ['' USD '', '' ''])
      (set (map IndexName (rows example_table))) = Inr {''USD''}" by simp
  let ?pad = "[''USD'' @ [CHR 0xA0], CHR 0x85 # ''EUR'' @ [CHR 0x09], [CHR 0xA0]]"
  have "normalise_apply_to (Some ?pad) (set (map IndexName (rows example_table)))
     = Inr {strip ix | ix. ix \<in> set ?pad \<and> strip ix \<noteq> []}"
    using apply_to_stripped_entries [OF w, of ?pad shock_up] s names by simp
  moreover have "{strip ix | ix. ix \<in> set ?pad \<and> strip ix \<noteq> []} = {''USD'', ''EUR''}"
    unfolding selected_conv [symmetric] using s by simp
  ultimately have c2: "normalise_apply_to (Some ?pad)
      (set (map IndexName (rows example_table))) = Inr {''USD'', ''EUR''}" by simp
  have d: "strip [CHR 0xA0, CHR 0x85] = []"
    using apply_to_stripped_entries [OF w, where e = "[CHR 0xA0, CHR 0x85]"] by simp
  show ?thesis by (intro conjI; rule w a a2 a3 b c c2 d)
qed

subsection \<open>Batches of shocks\<close>





end
